theory Spec2Isabelle
  imports Main
begin

section \<open>Strings and numbers of the host language\<close>

text \<open>
  Strings are lists of 8-bit characters. The string operations of the host language
  (\<open>split\<close>, \<open>trim\<close>, \<open>toLowerCase\<close>, \<open>includes\<close>, \<open>parseInt\<close>, \<open>toString\<close>) are
  modelled on the ASCII range. Numbers are modelled as unbounded integers (bit rates, channel
  counts and job counts are integral); \<open>NaN\<close> is \<open>None\<close>, \<open>undefined\<close> is \<open>None\<close>.
\<close>

definition upper_chars :: string where
  "upper_chars = ''ABCDEFGHIJKLMNOPQRSTUVWXYZ''"

definition lower_chars :: string where
  "lower_chars = ''abcdefghijklmnopqrstuvwxyz''"

definition lower_char :: "char \<Rightarrow> char" where
  "lower_char c = (case map_of (zip upper_chars lower_chars) c of Some l \<Rightarrow> l | None \<Rightarrow> c)"

definition toLowerCase :: "string \<Rightarrow> string" where
  "toLowerCase s = map lower_char s"

definition is_ws :: "char \<Rightarrow> bool" where
  "is_ws c = (c \<in> set [CHR 0x09, CHR 0x0A, CHR 0x0B, CHR 0x0C, CHR 0x0D, CHR 0x20])"

definition trim :: "string \<Rightarrow> string" where
  "trim s = rev (dropWhile is_ws (rev (dropWhile is_ws s)))"

text \<open>
  \<open>s.split(c)\<close> for a one-character separator: the result is never empty, so it is computed
  as its first field and the list of the remaining fields.
\<close>

fun split_first :: "char \<Rightarrow> string \<Rightarrow> string \<times> string list" where
  "split_first c [] = ([], [])"
| "split_first c (x # xs) =
     (let (w, ws) = split_first c xs in if x = c then ([], w # ws) else (x # w, ws))"

definition split_on :: "char \<Rightarrow> string \<Rightarrow> string list" where
  "split_on c s = (let (w, ws) = split_first c s in w # ws)"

text \<open>Reading position \<open>i\<close> of an array: \<open>undefined\<close> when out of range.\<close>

definition at :: "'a list \<Rightarrow> nat \<Rightarrow> 'a option" where
  "at xs i = (if i < length xs then Some (xs ! i) else None)"

text \<open>Truthiness of a possibly undefined string: defined and not empty.\<close>

fun truthy :: "string option \<Rightarrow> bool" where
  "truthy None = False"
| "truthy (Some s) = (s \<noteq> [])"

text \<open>\<open>hay.includes(needle)\<close>.\<close>

fun str_includes :: "string \<Rightarrow> string \<Rightarrow> bool" where
  "str_includes [] needle = (needle = [])"
| "str_includes (x # xs) needle =
     (take (length needle) (x # xs) = needle \<or> str_includes xs needle)"

text \<open>Decimal rendering of a number (\<open>n.toString()\<close>).\<close>

definition digit_chars :: string where
  "digit_chars = ''0123456789''"

fun string_of_nat :: "nat \<Rightarrow> string" where
  "string_of_nat n =
     (if n < 10 then [digit_chars ! n]
      else string_of_nat (n div 10) @ [digit_chars ! (n mod 10)])"

declare string_of_nat.simps [simp del]

definition toString :: "int \<Rightarrow> string" where
  "toString i = (if i < 0 then CHR ''-'' # string_of_nat (nat (- i)) else string_of_nat (nat i))"

text \<open>
  \<open>parseInt(s)\<close> without a radix: leading white space is skipped, a sign is read, a
  \<open>0x\<close>/\<open>0X\<close> prefix selects radix 16, and the longest prefix of digits is read; with no
  digit the result is \<open>NaN\<close>.
\<close>

definition digit_val :: "char \<Rightarrow> nat option" where
  "digit_val c =
     map_of [(CHR ''0'', 0), (CHR ''1'', 1), (CHR ''2'', 2), (CHR ''3'', 3), (CHR ''4'', 4),
             (CHR ''5'', 5), (CHR ''6'', 6), (CHR ''7'', 7), (CHR ''8'', 8), (CHR ''9'', 9),
             (CHR ''a'', 10), (CHR ''b'', 11), (CHR ''c'', 12), (CHR ''d'', 13),
             (CHR ''e'', 14), (CHR ''f'', 15),
             (CHR ''A'', 10), (CHR ''B'', 11), (CHR ''C'', 12), (CHR ''D'', 13),
             (CHR ''E'', 14), (CHR ''F'', 15)] c"

definition is_digit :: "nat \<Rightarrow> char \<Rightarrow> bool" where
  "is_digit radix c = (case digit_val c of None \<Rightarrow> False | Some v \<Rightarrow> v < radix)"

definition digits_value :: "nat \<Rightarrow> string \<Rightarrow> nat" where
  "digits_value radix ds =
     foldl (\<lambda>acc c. acc * radix + (case digit_val c of None \<Rightarrow> 0 | Some v \<Rightarrow> v)) 0 ds"

definition parse_digits :: "nat \<Rightarrow> string \<Rightarrow> nat option" where
  "parse_digits radix s =
     (let ds = takeWhile (is_digit radix) s in
      if ds = [] then None else Some (digits_value radix ds))"

definition parse_unsigned :: "string \<Rightarrow> nat option" where
  "parse_unsigned s =
     (if take 2 s = ''0x'' \<or> take 2 s = ''0X'' then parse_digits 16 (drop 2 s)
      else parse_digits 10 s)"

definition parseInt :: "string \<Rightarrow> int option" where
  "parseInt s =
     (case dropWhile is_ws s of
        [] \<Rightarrow> None
      | c # r \<Rightarrow>
          if c = CHR ''-'' then map_option (\<lambda>n. - int n) (parse_unsigned r)
          else if c = CHR ''+'' then map_option int (parse_unsigned r)
          else map_option int (parse_unsigned (c # r)))"

text \<open>\<open>parseInt\<close> of a destructured field: \<open>undefined\<close> is converted to the string
  \<open>undefined\<close> first, which has no digit.\<close>

fun parseInt_field :: "string option \<Rightarrow> int option" where
  "parseInt_field None = parseInt ''undefined''"
| "parseInt_field (Some s) = parseInt s"

section \<open>The conversion matrix (conversionUtils.ts)\<close>

record ConversionProfile =
  codec :: string
  bitrate :: string
  channels :: string

text \<open>
  The matrix is a \<open>Map\<close> from condition strings to profiles. Iteration follows insertion
  order, and \<open>set\<close> on a key that is present replaces the value in place: an association
  list with in-place update.
\<close>

type_synonym ConversionMatrix = "(string \<times> ConversionProfile) list"

fun map_set :: "string \<Rightarrow> ConversionProfile \<Rightarrow> ConversionMatrix \<Rightarrow> ConversionMatrix" where
  "map_set k v [] = [(k, v)]"
| "map_set k v ((k', v') # m) = (if k' = k then (k, v) # m else (k', v') # map_set k v m)"

definition map_get :: "ConversionMatrix \<Rightarrow> string \<Rightarrow> ConversionProfile option" where
  "map_get m k = map_of m k"

datatype error = TypeError | ApiError

text \<open>\<open>field.trim()\<close> on a destructured field raises a \<open>TypeError\<close> when the field is
  \<open>undefined\<close>.\<close>

fun trim_field :: "string option \<Rightarrow> error + string" where
  "trim_field None = Inl TypeError"
| "trim_field (Some s) = Inr (trim s)"

definition fallback_key :: string where
  "fallback_key = ''0|0|0|0|0''"

text \<open>The object literal of the first branch: the three fields of \<open>result.split("|")\<close>,
  each trimmed, with no check that they are there.\<close>

definition explicit_profile :: "string \<Rightarrow> error + ConversionProfile" where
  "explicit_profile result =
     (let fs = split_on CHR ''|'' result in
      case trim_field (at fs 0) of Inl e \<Rightarrow> Inl e | Inr c \<Rightarrow>
      (case trim_field (at fs 1) of Inl e \<Rightarrow> Inl e | Inr b \<Rightarrow>
      (case trim_field (at fs 2) of Inl e \<Rightarrow> Inl e | Inr ch \<Rightarrow>
         Inr \<lparr>codec = c, bitrate = b, channels = ch\<rparr>)))"

text \<open>The second branch: the bare fallback item, stored under the all-wildcard key when
  its three fields are there and not empty.\<close>

definition fallback_rule :: "string \<Rightarrow> ConversionMatrix \<Rightarrow> ConversionMatrix" where
  "fallback_rule condition m =
     (let fs = split_on CHR ''|'' condition in
      if truthy (at fs 0) \<and> truthy (at fs 1) \<and> truthy (at fs 2) then
        (case (at fs 0, at fs 1, at fs 2) of
           (Some c, Some b, Some ch) \<Rightarrow>
             map_set fallback_key \<lparr>codec = trim c, bitrate = trim b, channels = trim ch\<rparr> m
         | _ \<Rightarrow> m)
      else m)"

text \<open>The body of the loop over the items of the matrix string.\<close>

definition parse_rule :: "string \<Rightarrow> ConversionMatrix \<Rightarrow> error + ConversionMatrix" where
  "parse_rule rule m =
     (let parts = split_on CHR ''='' rule; condition = at parts 0; result = at parts 1 in
      if truthy condition \<and> truthy result then
        (case (condition, result) of
           (Some cond, Some res) \<Rightarrow>
             (case explicit_profile res of
                Inl e \<Rightarrow> Inl e
              | Inr p \<Rightarrow> Inr (map_set (trim cond) p m))
         | _ \<Rightarrow> Inr m)
      else if truthy condition \<and> \<not> truthy result then
        (case condition of Some cond \<Rightarrow> Inr (fallback_rule cond m) | None \<Rightarrow> Inr m)
      else Inr m)"

fun parse_rules :: "string list \<Rightarrow> ConversionMatrix \<Rightarrow> error + ConversionMatrix" where
  "parse_rules [] m = Inr m"
| "parse_rules (rule # rules) m =
     (case parse_rule rule m of Inl e \<Rightarrow> Inl e | Inr m' \<Rightarrow> parse_rules rules m')"

definition parseConversionMatrix :: "string \<Rightarrow> error + ConversionMatrix" where
  "parseConversionMatrix matrixStr =
     (if matrixStr = [] then Inr [] else parse_rules (split_on CHR '','' matrixStr) [])"

text \<open>
  The two bound tests of \<open>findConversion\<close>:
  \<open>cond === "0" || input >= parseInt(cond)\<close> and \<open>cond === "0" || input <= parseInt(cond)\<close>.
  A comparison with \<open>NaN\<close> is false.
\<close>

definition from_ok :: "string option \<Rightarrow> int \<Rightarrow> bool" where
  "from_ok cond input =
     (cond = Some ''0'' \<or> (case parseInt_field cond of None \<Rightarrow> False | Some v \<Rightarrow> v \<le> input))"

definition to_ok :: "string option \<Rightarrow> int \<Rightarrow> bool" where
  "to_ok cond input =
     (cond = Some ''0'' \<or> (case parseInt_field cond of None \<Rightarrow> False | Some v \<Rightarrow> input \<le> v))"

definition condition_matches :: "string \<Rightarrow> string \<Rightarrow> int \<Rightarrow> int \<Rightarrow> bool" where
  "condition_matches condition inputCodec inputBitrate inputChannels =
     (let (condCodec, rest) = split_first CHR ''|'' condition in
      (toLowerCase condCodec = toLowerCase inputCodec \<or> condCodec = ''0'') \<and>
      from_ok (at rest 0) inputBitrate \<and>
      to_ok (at rest 1) inputBitrate \<and>
      from_ok (at rest 2) inputChannels \<and>
      to_ok (at rest 3) inputChannels)"

definition resolve_copy :: "ConversionProfile \<Rightarrow> string \<Rightarrow> int \<Rightarrow> int \<Rightarrow> ConversionProfile" where
  "resolve_copy profile inputCodec inputBitrate inputChannels =
     (if toLowerCase (codec profile) = ''copy''
      then \<lparr>codec = inputCodec, bitrate = toString inputBitrate,
            channels = toString inputChannels\<rparr>
      else profile)"

text \<open>The loop over \<open>matrix.entries()\<close>, returning from inside at the first match.\<close>

fun find_loop :: "ConversionMatrix \<Rightarrow> string \<Rightarrow> int \<Rightarrow> int \<Rightarrow> ConversionProfile option" where
  "find_loop [] inputCodec inputBitrate inputChannels = None"
| "find_loop ((condition, resultProfile) # rest) inputCodec inputBitrate inputChannels =
     (if condition_matches condition inputCodec inputBitrate inputChannels
      then Some (resolve_copy resultProfile inputCodec inputBitrate inputChannels)
      else find_loop rest inputCodec inputBitrate inputChannels)"

definition findConversion ::
  "ConversionMatrix \<Rightarrow> string \<Rightarrow> int \<Rightarrow> int \<Rightarrow> ConversionProfile option" where
  "findConversion matrix inputCodec inputBitrate inputChannels =
     (case find_loop matrix inputCodec inputBitrate inputChannels of
        Some r \<Rightarrow> Some r
      | None \<Rightarrow>
          (case map_get matrix fallback_key of
             Some fallbackProfile \<Rightarrow>
               Some (resolve_copy fallbackProfile inputCodec inputBitrate inputChannels)
           | None \<Rightarrow> None))"

section \<open>Configuration (config.ts)\<close>

text \<open>
  \<open>EXCLUDED_CODECS = (process.env.EXCLUDED_CODECS || "opus").toLowerCase().split(",")\<close>:
  an unset or empty variable gives the default.
\<close>

definition env_or :: "string option \<Rightarrow> string \<Rightarrow> string" where
  "env_or v d = (if truthy v then (case v of Some x \<Rightarrow> x | None \<Rightarrow> d) else d)"

definition EXCLUDED_CODECS_of :: "string option \<Rightarrow> string list" where
  "EXCLUDED_CODECS_of env = split_on CHR '','' (toLowerCase (env_or env ''opus''))"

record config =
  MAX_PARALLEL :: int
  EMBED_METADATA :: bool
  DRY_RUN :: bool
  EXCLUDED_CODECS :: "string list"

section \<open>The socket client: queue, counter and dispatch (index.ts)\<close>

record AudioFileMetadata =
  file_codec :: string
  file_channels :: int
  file_bitRate :: int

datatype readyState = CONNECTING | OPEN | CLOSING | CLOSED

text \<open>
  Calls that leave the client, in the order they are made. The call of the rule engine is
  recorded too, so that a run shows whether it was consulted.
\<close>

datatype effect =
    GetItemDetails string
  | FindConversion string int int
  | StartM4bEncoding string string string string
  | GetTasks
  | EmbedTimer string
  | ClearTimeout
  | WsSend string
  | WsClose
  | WsTerminate
  | ProcessExit

text \<open>The three points where a call of \<open>processEncodingQueue\<close> is suspended.\<close>

datatype await = AwaitItemDetails | AwaitStartEncoding | AwaitGetTasks

text \<open>
  The fields of \<open>SocketClient\<close> that the queue uses, and the state of the scheduler around
  them: the suspended calls of \<open>processEncodingQueue\<close> (a call number, the item the call
  owns, the point it waits at), the timers set by \<open>item_added\<close> that have not fired, the exit
  timer set by a signal handler, the calls made so far, and whether the process has exited.
  The ready state the connection has after \<open>close\<close> or \<open>terminate\<close> belongs to the socket
  library and is not tracked.
\<close>

record client =
  ws :: "readyState option"
  encodingQueue :: "string list"
  runningEncodings :: int
  conversionMatrix :: ConversionMatrix
  reconnectTimeout :: bool
  suspended :: "(nat \<times> string \<times> await) list"
  nextCall :: nat
  queueTimers :: nat
  exitTimer :: bool
  trace :: "effect list"
  exited :: bool

definition new_client :: "ConversionMatrix \<Rightarrow> client" where
  "new_client m =
     \<lparr>ws = None, encodingQueue = [], runningEncodings = 0, conversionMatrix = m,
      reconnectTimeout = False, suspended = [], nextCall = 0, queueTimers = 0,
      exitTimer = False, trace = [], exited = False\<rparr>"

definition emit :: "effect \<Rightarrow> client \<Rightarrow> client" where
  "emit e s = s\<lparr>trace := trace s @ [e]\<rparr>"

definition sendRawSocketMessage :: "string \<Rightarrow> client \<Rightarrow> client" where
  "sendRawSocketMessage message s = (if ws s = Some OPEN then emit (WsSend message) s else s)"

definition shutdown :: "client \<Rightarrow> client" where
  "shutdown s =
     (let s1 = (if reconnectTimeout s then emit ClearTimeout (s\<lparr>reconnectTimeout := False\<rparr>)
                else s);
          s2 = (if ws s1 = Some OPEN then emit WsClose (sendRawSocketMessage ''41'' s1)
                else if ws s1 \<noteq> None then emit WsTerminate s1
                else s1)
      in if encodingQueue s2 = [] then emit ProcessExit (s2\<lparr>exited := True\<rparr>) else s2)"

text \<open>
  \<open>processEncodingQueue\<close> up to its first \<open>await\<close>: the two gates, the \<open>shift\<close>, the
  increment and the request for the item's details. Nothing runs once the process has exited.
\<close>

definition processEncodingQueue :: "config \<Rightarrow> client \<Rightarrow> client" where
  "processEncodingQueue cfg s =
     (if exited s then s
      else if encodingQueue s = [] then (if DRY_RUN cfg then shutdown s else s)
      else if MAX_PARALLEL cfg \<le> runningEncodings s then s
      else
        (case encodingQueue s of
           [] \<Rightarrow> s
         | itemId # rest \<Rightarrow>
             if itemId = [] then s\<lparr>encodingQueue := rest\<rparr>
             else emit (GetItemDetails itemId)
                    (s\<lparr>encodingQueue := rest,
                       runningEncodings := runningEncodings s + 1,
                       suspended := suspended s @ [(nextCall s, itemId, AwaitItemDetails)],
                       nextCall := nextCall s + 1\<rparr>)))"

text \<open>\<open>this.runningEncodings--; void this.processEncodingQueue();\<close>, as written at each
  skip and in the \<open>catch\<close> block.\<close>

definition decrement_and_retry :: "config \<Rightarrow> client \<Rightarrow> client" where
  "decrement_and_retry cfg s =
     processEncodingQueue cfg (s\<lparr>runningEncodings := runningEncodings s - 1\<rparr>)"

definition codec_excluded :: "config \<Rightarrow> string \<Rightarrow> bool" where
  "codec_excluded cfg c = (toLowerCase c \<in> set (EXCLUDED_CODECS cfg))"

text \<open>What \<open>getItemDetails\<close> gives back: it throws, or it returns details whose
  \<open>media?.audioFiles\<close> is undefined or a list.\<close>

datatype details_reply = DetailsError | Details "AudioFileMetadata list option"

text \<open>
  The \<open>try\<close> block from the first \<open>await\<close> to the second: \<open>Inl\<close> is an exception thrown
  to the \<open>catch\<close> block. The call \<open>cid\<close> has been taken out of the suspended calls; it is put
  back when it reaches the next \<open>await\<close>.
\<close>

definition try_after_details ::
  "config \<Rightarrow> nat \<Rightarrow> string \<Rightarrow> details_reply \<Rightarrow> client \<Rightarrow> error + client" where
  "try_after_details cfg cid itemId reply s =
     (case reply of
        DetailsError \<Rightarrow> Inl ApiError
      | Details audioFiles \<Rightarrow>
          (case audioFiles of
             None \<Rightarrow> Inr (decrement_and_retry cfg s)
           | Some [] \<Rightarrow> Inr (decrement_and_retry cfg s)
           | Some (audioFile # _) \<Rightarrow>
               if codec_excluded cfg (file_codec audioFile) then Inr (decrement_and_retry cfg s)
               else
                 (let s1 = emit (FindConversion (file_codec audioFile) (file_bitRate audioFile)
                                   (file_channels audioFile)) s in
                  case findConversion (conversionMatrix s) (file_codec audioFile)
                         (file_bitRate audioFile) (file_channels audioFile) of
                    None \<Rightarrow> Inr (decrement_and_retry cfg s1)
                  | Some conversionProfile \<Rightarrow>
                      Inr (emit (StartM4bEncoding itemId (codec conversionProfile)
                                   (bitrate conversionProfile) (channels conversionProfile))
                             (s1\<lparr>suspended :=
                                   suspended s1 @ [(cid, itemId, AwaitStartEncoding)]\<rparr>)))))"

text \<open>From the second \<open>await\<close> to the third.\<close>

definition try_after_start :: "nat \<Rightarrow> string \<Rightarrow> bool \<Rightarrow> client \<Rightarrow> error + client" where
  "try_after_start cid itemId ok s =
     (if ok then Inr (emit GetTasks (s\<lparr>suspended := suspended s @ [(cid, itemId, AwaitGetTasks)]\<rparr>))
      else Inl ApiError)"

text \<open>The inner \<open>try\<close> around \<open>getTasks\<close>, with its empty \<open>catch\<close>.\<close>

definition after_tasks :: "nat option \<Rightarrow> client \<Rightarrow> client" where
  "after_tasks reply s =
     (case reply of None \<Rightarrow> s | Some n \<Rightarrow> s\<lparr>runningEncodings := int n\<rparr>)"

definition catch_block :: "config \<Rightarrow> error + client \<Rightarrow> client \<Rightarrow> client" where
  "catch_block cfg r s = (case r of Inl e \<Rightarrow> decrement_and_retry cfg s | Inr s' \<Rightarrow> s')"

text \<open>\<open>item_added\<close>: push the identifier and set a timer for one call of
  \<open>processEncodingQueue\<close>.\<close>

definition item_added :: "string option \<Rightarrow> client \<Rightarrow> client" where
  "item_added payload_id s =
     (if truthy payload_id then
        (case payload_id of
           Some i \<Rightarrow> s\<lparr>encodingQueue := encodingQueue s @ [i], queueTimers := queueTimers s + 1\<rparr>
         | None \<Rightarrow> s)
      else s)"

text \<open>\<open>for (let i = this.runningEncodings; i < MAX_PARALLEL; i++) void
  this.processEncodingQueue();\<close>\<close>

function backfill :: "config \<Rightarrow> int \<Rightarrow> client \<Rightarrow> client" where
  "backfill cfg i s =
     (if i < MAX_PARALLEL cfg then backfill cfg (i + 1) (processEncodingQueue cfg s) else s)"
  by pat_completeness auto
termination
  by (relation "measure (\<lambda>(cfg, i, s). nat (MAX_PARALLEL cfg - i))") auto

declare backfill.simps [simp del]

text \<open>\<open>task_finished\<close>: \<open>action\<close> is \<open>None\<close> when the payload's action is not a string.\<close>

definition task_finished :: "config \<Rightarrow> string option \<Rightarrow> string option \<Rightarrow> client \<Rightarrow> client" where
  "task_finished cfg action libraryItemId s =
     (case action of
        None \<Rightarrow> s
      | Some a \<Rightarrow>
          if str_includes a ''encode'' then
            (let s1 = s\<lparr>runningEncodings := runningEncodings s - 1\<rparr>;
                 s2 = (if EMBED_METADATA cfg \<and> truthy libraryItemId then
                         (case libraryItemId of Some i \<Rightarrow> emit (EmbedTimer i) s1 | None \<Rightarrow> s1)
                       else s1)
             in backfill cfg (runningEncodings s2) s2)
          else s)"

text \<open>The signal handlers of \<open>main\<close>: \<open>client.shutdown()\<close>, then a timer that exits.\<close>

definition on_signal :: "client \<Rightarrow> client" where
  "on_signal s = (let s1 = shutdown s in if exited s1 then s1 else s1\<lparr>exitTimer := True\<rparr>)"

text \<open>
  What the scheduler can run next: a socket event, a timer that fires, the reply to a
  suspended call, a signal. A reply addressed to a call that is not suspended at that point
  does not occur; the step leaves the state as it is. The scan of the libraries at start-up,
  which enqueues identifiers and then makes dispatch attempts from a timer of its own, is
  left out.
\<close>

datatype event =
    ItemAdded "string option"
  | TaskFinished "string option" "string option"
  | QueueTimer
  | ItemDetailsReply nat details_reply
  | StartEncodingReply nat bool
  | TasksReply nat "nat option"
  | Signal
  | ExitTimer

definition resume :: "nat \<Rightarrow> client \<Rightarrow> client" where
  "resume cid s = s\<lparr>suspended := filter (\<lambda>c. fst c \<noteq> cid) (suspended s)\<rparr>"

definition step :: "config \<Rightarrow> event \<Rightarrow> client \<Rightarrow> client" where
  "step cfg ev s =
     (if exited s then s
      else
        (case ev of
           ItemAdded payload_id \<Rightarrow> item_added payload_id s
         | TaskFinished action libraryItemId \<Rightarrow> task_finished cfg action libraryItemId s
         | QueueTimer \<Rightarrow>
             if queueTimers s = 0 then s
             else processEncodingQueue cfg (s\<lparr>queueTimers := queueTimers s - 1\<rparr>)
         | ItemDetailsReply cid reply \<Rightarrow>
             (case map_of (suspended s) cid of
                Some (itemId, AwaitItemDetails) \<Rightarrow>
                  catch_block cfg (try_after_details cfg cid itemId reply (resume cid s))
                    (resume cid s)
              | _ \<Rightarrow> s)
         | StartEncodingReply cid ok \<Rightarrow>
             (case map_of (suspended s) cid of
                Some (itemId, AwaitStartEncoding) \<Rightarrow>
                  catch_block cfg (try_after_start cid itemId ok (resume cid s)) (resume cid s)
              | _ \<Rightarrow> s)
         | TasksReply cid reply \<Rightarrow>
             (case map_of (suspended s) cid of
                Some (itemId, AwaitGetTasks) \<Rightarrow> after_tasks reply (resume cid s)
              | _ \<Rightarrow> s)
         | Signal \<Rightarrow> on_signal s
         | ExitTimer \<Rightarrow> if exitTimer s then emit ProcessExit (s\<lparr>exited := True\<rparr>) else s))"

definition run :: "config \<Rightarrow> event list \<Rightarrow> client \<Rightarrow> client" where
  "run cfg evs s = foldl (\<lambda>s ev. step cfg ev s) s evs"

section \<open>Notions of the specification\<close>

text \<open>
  A condition as the specification has it: a codec (\<open>0\<close> is the wildcard) and two pairs of
  inclusive bounds, where a bound \<open>0\<close> is no bound on that side.
\<close>

record Condition =
  cond_codec :: string
  bitrateLow :: int
  bitrateHigh :: int
  channelsLow :: int
  channelsHigh :: int

definition in_bounds :: "int \<Rightarrow> int \<Rightarrow> int \<Rightarrow> bool" where
  "in_bounds low high x = ((low = 0 \<or> low \<le> x) \<and> (high = 0 \<or> x \<le> high))"

definition condition_holds :: "Condition \<Rightarrow> string \<Rightarrow> int \<Rightarrow> int \<Rightarrow> bool" where
  "condition_holds c inputCodec inputBitrate inputChannels =
     ((toLowerCase (cond_codec c) = toLowerCase inputCodec \<or> cond_codec c = ''0'') \<and>
      in_bounds (bitrateLow c) (bitrateHigh c) inputBitrate \<and>
      in_bounds (channelsLow c) (channelsHigh c) inputChannels)"

text \<open>The key under which a condition stands in the matrix, and the matrix of a list of
  rules in declaration order.\<close>

definition condition_key :: "Condition \<Rightarrow> string" where
  "condition_key c =
     cond_codec c @ ''|'' @ toString (bitrateLow c) @ ''|'' @ toString (bitrateHigh c) @ ''|'' @
     toString (channelsLow c) @ ''|'' @ toString (channelsHigh c)"

definition rule_table :: "(Condition \<times> ConversionProfile) list \<Rightarrow> ConversionMatrix" where
  "rule_table rules = map (\<lambda>(c, a). (condition_key c, a)) rules"

definition first_match ::
  "(Condition \<times> ConversionProfile) list \<Rightarrow> string \<Rightarrow> int \<Rightarrow> int \<Rightarrow>
   (Condition \<times> ConversionProfile) option" where
  "first_match rules inputCodec inputBitrate inputChannels =
     find (\<lambda>(c, a). condition_holds c inputCodec inputBitrate inputChannels) rules"

text \<open>The profile that decides the result: the one of the first entry that matches, and
  the fallback entry when no entry matches.\<close>

definition selected_profile ::
  "ConversionMatrix \<Rightarrow> string \<Rightarrow> int \<Rightarrow> int \<Rightarrow> ConversionProfile option" where
  "selected_profile matrix inputCodec inputBitrate inputChannels =
     (case find (\<lambda>(condition, profile).
                   condition_matches condition inputCodec inputBitrate inputChannels) matrix of
        Some (condition, profile) \<Rightarrow> Some profile
      | None \<Rightarrow> map_get matrix fallback_key)"

text \<open>Completion signals, and replies of the job count that stay within a limit.\<close>

fun completion_signal :: "event \<Rightarrow> bool" where
  "completion_signal (TaskFinished action libraryItemId) = True"
| "completion_signal ev = False"

fun resync_within :: "int \<Rightarrow> event \<Rightarrow> bool" where
  "resync_within k (TasksReply cid (Some n)) = (int n \<le> k)"
| "resync_within k ev = True"

text \<open>Calls of the rule engine and of the encoding capability in a trace.\<close>

fun engine_call :: "effect \<Rightarrow> bool" where
  "engine_call (FindConversion c b ch) = True"
| "engine_call (StartM4bEncoding itemId c b ch) = True"
| "engine_call e = False"

text \<open>
  A queue whose entries are all excluded: the details of each entry, in queue order, have a
  first audio file with an excluded codec. \<open>drain_replies\<close> are the replies to the calls that
  fetch these details, numbered from the next call on, and \<open>drained\<close> is the state they lead
  to: the queue empty, one request for details per entry, and the shutdown of the
  drain-then-exit mode.
\<close>

fun first_excluded :: "config \<Rightarrow> AudioFileMetadata list \<Rightarrow> bool" where
  "first_excluded cfg [] = False"
| "first_excluded cfg (audioFile # others) = codec_excluded cfg (file_codec audioFile)"

fun drain_replies :: "nat \<Rightarrow> AudioFileMetadata list list \<Rightarrow> event list" where
  "drain_replies n [] = []"
| "drain_replies n (files # rest) =
     ItemDetailsReply n (Details (Some files)) # drain_replies (Suc n) rest"

definition drained :: "config \<Rightarrow> client \<Rightarrow> client" where
  "drained cfg s =
     (let s' = s\<lparr>encodingQueue := [],
                 nextCall := nextCall s + length (encodingQueue s),
                 trace := trace s @ map GetItemDetails (encodingQueue s)\<rparr>
      in if DRY_RUN cfg then shutdown s' else s')"

text \<open>What holds of the suspended calls and of the queue in every state reached from a new
  client: the calls have numbers below the next one, and no queued identifier is empty.\<close>

definition well_formed :: "client \<Rightarrow> bool" where
  "well_formed s =
     ((\<forall>c \<in> set (suspended s). fst c < nextCall s) \<and> [] \<notin> set (encodingQueue s))"

section \<open>Example inputs\<close>

definition ex_config :: config where
  "ex_config = \<lparr>MAX_PARALLEL = 2, EMBED_METADATA = False, DRY_RUN = False,
                EXCLUDED_CODECS = EXCLUDED_CODECS_of None\<rparr>"

definition ex_mp3 :: AudioFileMetadata where
  "ex_mp3 = \<lparr>file_codec = ''mp3'', file_channels = 2, file_bitRate = 128000\<rparr>"

definition ex_opus :: AudioFileMetadata where
  "ex_opus = \<lparr>file_codec = ''Opus'', file_channels = 2, file_bitRate = 64000\<rparr>"

definition ex_matrix :: ConversionMatrix where
  "ex_matrix = [(''0|0|0|0|0'', \<lparr>codec = ''opus'', bitrate = ''64000'', channels = ''2''\<rparr>)]"

definition ex_copy_matrix :: ConversionMatrix where
  "ex_copy_matrix = [(''0|0|0|0|0'', \<lparr>codec = ''copy'', bitrate = ''0'', channels = ''0''\<rparr>)]"

definition ex_rules :: "(Condition \<times> ConversionProfile) list" where
  "ex_rules =
     [(\<lparr>cond_codec = ''0'', bitrateLow = 1, bitrateHigh = 48000, channelsLow = 1,
        channelsHigh = 1\<rparr>,
       \<lparr>codec = ''opus'', bitrate = ''24000'', channels = ''1''\<rparr>),
      (\<lparr>cond_codec = ''0'', bitrateLow = 0, bitrateHigh = 0, channelsLow = 0,
        channelsHigh = 0\<rparr>,
       \<lparr>codec = ''opus'', bitrate = ''64000'', channels = ''2''\<rparr>)]"

text \<open>Three items are added and their timers fire while a limit of two is configured; each
  job count reported is the number of encodings requested so far.\<close>

definition ex_burst :: "event list" where
  "ex_burst =
     [ItemAdded (Some ''a''), ItemAdded (Some ''b''), ItemAdded (Some ''c''),
      QueueTimer, QueueTimer,
      ItemDetailsReply 0 (Details (Some [ex_mp3])), StartEncodingReply 0 True,
      TasksReply 0 (Some 1),
      QueueTimer,
      ItemDetailsReply 1 (Details (Some [ex_mp3])), StartEncodingReply 1 True,
      TasksReply 1 (Some 2),
      ItemDetailsReply 2 (Details (Some [ex_mp3])), StartEncodingReply 2 True,
      TasksReply 2 (Some 3)]"

definition ex_two_started :: "event list" where
  "ex_two_started =
     [ItemAdded (Some ''a''), ItemAdded (Some ''b''), ItemAdded (Some ''c''),
      QueueTimer, QueueTimer]"

definition ex_two_queued :: client where
  "ex_two_queued =
     run ex_config [ItemAdded (Some ''a''), ItemAdded (Some ''b'')] (new_client ex_matrix)"

definition ex_await_details :: client where
  "ex_await_details = run ex_config [QueueTimer] ex_two_queued"

definition ex_await_start :: client where
  "ex_await_start =
     run ex_config [ItemDetailsReply 0 (Details (Some [ex_mp3]))] ex_await_details"

definition ex_await_tasks :: client where
  "ex_await_tasks = run ex_config [StartEncodingReply 0 True] ex_await_start"

definition ex_open_client :: client where
  "ex_open_client = ex_two_queued\<lparr>ws := Some OPEN, reconnectTimeout := True\<rparr>"

section \<open>Decimal strings are read back by parseInt\<close>

lemma digit_cases: "d < (10::nat) \<Longrightarrow> d \<in> {0, 1, 2, 3, 4, 5, 6, 7, 8, 9}"
  by auto

lemma digit_val_digit: "d < 10 \<Longrightarrow> digit_val (digit_chars ! d) = Some d"
  using digit_cases [of d] by (auto simp: digit_val_def digit_chars_def)

lemma is_digit_digit: "d < 10 \<Longrightarrow> is_digit 10 (digit_chars ! d)"
  by (simp add: is_digit_def digit_val_digit)

lemma digit_not_special:
  "d < 10 \<Longrightarrow> \<not> is_ws (digit_chars ! d) \<and> digit_chars ! d \<noteq> CHR ''-'' \<and>
     digit_chars ! d \<noteq> CHR ''+'' \<and> digit_chars ! d \<noteq> CHR ''|'' \<and>
     digit_chars ! d \<noteq> CHR ''x'' \<and> digit_chars ! d \<noteq> CHR ''X''"
  using digit_cases [of d] by (auto simp: digit_chars_def is_ws_def)

lemma digit_zero_iff: "d < 10 \<Longrightarrow> digit_chars ! d = CHR ''0'' \<longleftrightarrow> d = 0"
  using digit_cases [of d] by (auto simp: digit_chars_def)

lemma string_of_nat_digits: "c \<in> set (string_of_nat n) \<Longrightarrow> \<exists>d<10. c = digit_chars ! d"
proof (induction n rule: string_of_nat.induct)
  case (1 n)
  show ?case
  proof (cases "n < 10")
    case True
    then show ?thesis using "1.prems" by (subst (asm) string_of_nat.simps) auto
  next
    case False
    have m: "n mod 10 < 10" by simp
    have "c \<in> set (string_of_nat (n div 10)) \<or> c = digit_chars ! (n mod 10)"
      using "1.prems" False by (subst (asm) string_of_nat.simps) auto
    then show ?thesis using "1.IH" [OF False] m by blast
  qed
qed

lemma string_of_nat_nonempty: "string_of_nat n \<noteq> []"
  by (subst string_of_nat.simps) simp

lemma string_of_nat_all_digits: "takeWhile (is_digit 10) (string_of_nat n) = string_of_nat n"
  using string_of_nat_digits is_digit_digit by (fastforce simp: takeWhile_eq_all_conv)

lemma digits_value_snoc:
  "digits_value r (ds @ [c]) =
     digits_value r ds * r + (case digit_val c of None \<Rightarrow> 0 | Some v \<Rightarrow> v)"
  by (simp add: digits_value_def)

lemma digits_value_string_of_nat: "digits_value 10 (string_of_nat n) = n"
proof (induction n rule: string_of_nat.induct)
  case (1 n)
  show ?case
  proof (cases "n < 10")
    case True
    then show ?thesis
      by (subst string_of_nat.simps) (simp add: digits_value_def digit_val_digit)
  next
    case False
    then show ?thesis using "1.IH"
      by (subst string_of_nat.simps) (simp add: digits_value_snoc digit_val_digit)
  qed
qed

lemma parse_digits_string_of_nat: "parse_digits 10 (string_of_nat n) = Some n"
  by (simp add: parse_digits_def string_of_nat_all_digits string_of_nat_nonempty
      digits_value_string_of_nat)

lemma string_of_nat_no_prefix:
  "take 2 (string_of_nat n) \<noteq> ''0x'' \<and> take 2 (string_of_nat n) \<noteq> ''0X''"
proof -
  have "\<And>c. c \<in> set (take 2 (string_of_nat n)) \<Longrightarrow> c \<noteq> CHR ''x'' \<and> c \<noteq> CHR ''X''"
    using string_of_nat_digits digit_not_special by (metis in_set_takeD)
  then show ?thesis by fastforce
qed

lemma parse_unsigned_string_of_nat: "parse_unsigned (string_of_nat n) = Some n"
  using string_of_nat_no_prefix [of n]
  by (simp add: parse_unsigned_def parse_digits_string_of_nat)

lemma string_of_nat_hd:
  obtains c r where "string_of_nat n = c # r" "\<not> is_ws c" "c \<noteq> CHR ''-''" "c \<noteq> CHR ''+''"
proof -
  obtain c r where cr: "string_of_nat n = c # r"
    using string_of_nat_nonempty [of n] by (cases "string_of_nat n") auto
  then have "c \<in> set (string_of_nat n)" by simp
  then obtain d where "d < 10" "c = digit_chars ! d" using string_of_nat_digits by blast
  then show ?thesis using that cr digit_not_special by blast
qed

lemma parseInt_string_of_nat: "parseInt (string_of_nat n) = Some (int n)"
proof -
  obtain c r where cr: "string_of_nat n = c # r" "\<not> is_ws c" "c \<noteq> CHR ''-''" "c \<noteq> CHR ''+''"
    by (rule string_of_nat_hd)
  have "parse_unsigned (c # r) = Some n"
    using parse_unsigned_string_of_nat [of n] cr(1) by simp
  then show ?thesis using cr by (simp add: parseInt_def)
qed

lemma parseInt_toString: "parseInt (toString i) = Some i"
proof (cases "i < 0")
  case True
  then show ?thesis
    by (simp add: toString_def parseInt_def is_ws_def parse_unsigned_string_of_nat)
next
  case False
  then show ?thesis by (simp add: toString_def parseInt_string_of_nat)
qed

lemma string_of_nat_zero_iff: "string_of_nat n = ''0'' \<longleftrightarrow> n = 0"
proof (cases "n < 10")
  case True
  then show ?thesis using digit_zero_iff [of n]
    by (subst string_of_nat.simps) simp
next
  case False
  then show ?thesis using string_of_nat_nonempty [of "n div 10"]
    by (subst string_of_nat.simps) auto
qed

lemma toString_zero_iff: "toString i = ''0'' \<longleftrightarrow> i = 0"
proof (cases "i < 0")
  case True
  then show ?thesis by (simp add: toString_def)
next
  case False
  then show ?thesis by (simp add: toString_def string_of_nat_zero_iff)
qed

lemma string_of_nat_no_bar: "CHR ''|'' \<notin> set (string_of_nat n)"
proof
  assume "CHR ''|'' \<in> set (string_of_nat n)"
  then obtain d where "d < 10" "CHR ''|'' = digit_chars ! d"
    using string_of_nat_digits by blast
  then show False using digit_not_special [of d] by simp
qed

lemma toString_no_bar: "CHR ''|'' \<notin> set (toString i)"
  by (simp add: toString_def string_of_nat_no_bar)

section \<open>Splitting\<close>

lemma split_first_none: "c \<notin> set w \<Longrightarrow> split_first c w = (w, [])"
  by (induction w) auto

lemma split_first_append:
  "c \<notin> set w \<Longrightarrow> split_first c (w @ c # rest) = (w, split_on c rest)"
  by (induction w) (auto simp: split_on_def split: prod.splits)

lemma split_on_append:
  "c \<notin> set w \<Longrightarrow> split_on c (w @ c # rest) = w # split_on c rest"
  by (simp add: split_on_def split_first_append)

lemma split_on_none: "c \<notin> set w \<Longrightarrow> split_on c w = [w]"
  by (simp add: split_on_def split_first_none)

lemma split_first_map:
  assumes "\<And>x. f x = c \<longleftrightarrow> x = c"
  shows "split_first c (map f s) =
           (map f (fst (split_first c s)), map (map f) (snd (split_first c s)))"
  by (induction s) (auto simp: assms split: prod.splits)

lemma lower_char_comma: "lower_char x = CHR '','' \<longleftrightarrow> x = CHR '',''"
  by (simp add: lower_char_def upper_chars_def lower_chars_def)

lemma split_on_toLowerCase:
  "split_on CHR '','' (toLowerCase s) = map toLowerCase (split_on CHR '','' s)"
  using split_first_map [of lower_char "CHR '',''" s, OF lower_char_comma]
  by (simp add: split_on_def toLowerCase_def split: prod.splits)

lemma toLowerCase_env_or:
  "toLowerCase (env_or env ''opus'') = env_or (map_option toLowerCase env) ''opus''"
  by (cases env)
     (auto simp: env_or_def toLowerCase_def lower_char_def upper_chars_def lower_chars_def)

section \<open>The rule engine\<close>

lemma from_ok_toString: "from_ok (Some (toString l)) x \<longleftrightarrow> l = 0 \<or> l \<le> x"
  by (auto simp: from_ok_def toString_zero_iff parseInt_toString)

lemma to_ok_toString: "to_ok (Some (toString h)) x \<longleftrightarrow> h = 0 \<or> x \<le> h"
  by (auto simp: to_ok_def toString_zero_iff parseInt_toString)

lemma condition_key_fields:
  assumes "CHR ''|'' \<notin> set (cond_codec c)"
  shows "split_first CHR ''|'' (condition_key c) =
           (cond_codec c, [toString (bitrateLow c), toString (bitrateHigh c),
                           toString (channelsLow c), toString (channelsHigh c)])"
  using assms
  by (simp add: condition_key_def split_first_append split_on_append split_on_none
      toString_no_bar)

lemma condition_matches_key:
  assumes "CHR ''|'' \<notin> set (cond_codec c)"
  shows "condition_matches (condition_key c) inputCodec inputBitrate inputChannels \<longleftrightarrow>
         condition_holds c inputCodec inputBitrate inputChannels"
  by (simp add: condition_matches_def condition_key_fields [OF assms] at_def
      from_ok_toString to_ok_toString condition_holds_def in_bounds_def)

lemma fallback_key_matches: "condition_matches fallback_key c b ch"
  by (simp add: condition_matches_def fallback_key_def at_def from_ok_def to_ok_def)

lemma find_loop_find:
  "find_loop m c b ch =
     map_option (\<lambda>(k, p). resolve_copy p c b ch)
       (find (\<lambda>(k, p). condition_matches k c b ch) m)"
  by (induction m) auto

text \<open>The entry under the all-wildcard key takes part in the loop like every other entry
  and matches every input there, so the lookup after the loop never finds it.\<close>

lemma fallback_never_after_loop:
  "find_loop m c b ch = None \<Longrightarrow> map_get m fallback_key = None"
  by (induction m) (auto simp: map_get_def fallback_key_matches split: if_splits)

lemma find_loop_rule_table:
  "\<forall>(c, a) \<in> set rules. CHR ''|'' \<notin> set (cond_codec c) \<Longrightarrow>
   find_loop (rule_table rules) ic b ch =
     map_option (\<lambda>(c, a). resolve_copy a ic b ch) (first_match rules ic b ch)"
  by (induction rules) (auto simp: rule_table_def first_match_def condition_matches_key)

text \<open>The scenario of the specification: the first rule takes a mono input at 32000 bps,
  and an input that no bounded rule takes receives the all-wildcard rule's action.\<close>

lemma scenario_first_rule_then_wildcard:
  "parseConversionMatrix ''0|1|48000|1|1=opus|24000|1,0|0|0|0|0=opus|64000|2'' =
     Inr [(''0|1|48000|1|1'', \<lparr>codec = ''opus'', bitrate = ''24000'', channels = ''1''\<rparr>),
          (''0|0|0|0|0'', \<lparr>codec = ''opus'', bitrate = ''64000'', channels = ''2''\<rparr>)] \<and>
   findConversion
     [(''0|1|48000|1|1'', \<lparr>codec = ''opus'', bitrate = ''24000'', channels = ''1''\<rparr>),
      (''0|0|0|0|0'', \<lparr>codec = ''opus'', bitrate = ''64000'', channels = ''2''\<rparr>)]
     ''mp3'' 32000 1 =
     Some \<lparr>codec = ''opus'', bitrate = ''24000'', channels = ''1''\<rparr> \<and>
   findConversion
     [(''0|1|48000|1|1'', \<lparr>codec = ''opus'', bitrate = ''24000'', channels = ''1''\<rparr>),
      (''0|0|0|0|0'', \<lparr>codec = ''opus'', bitrate = ''64000'', channels = ''2''\<rparr>)]
     ''mp3'' 500000 2 =
     Some \<lparr>codec = ''opus'', bitrate = ''64000'', channels = ''2''\<rparr>"
proof -
  have p: "parseConversionMatrix ''0|1|48000|1|1=opus|24000|1,0|0|0|0|0=opus|64000|2'' =
     Inr [(''0|1|48000|1|1'', \<lparr>codec = ''opus'', bitrate = ''24000'', channels = ''1''\<rparr>),
          (''0|0|0|0|0'', \<lparr>codec = ''opus'', bitrate = ''64000'', channels = ''2''\<rparr>)]"
    by code_simp
  have n: "parseInt ''1'' = Some 1 \<and> parseInt ''48000'' = Some 48000"
    by (simp add: parseInt_def parse_unsigned_def parse_digits_def is_digit_def digit_val_def
        digits_value_def is_ws_def)
  have c: "toLowerCase ''opus'' \<noteq> ''copy''"
    by (simp add: toLowerCase_def lower_char_def upper_chars_def lower_chars_def)
  have f: "findConversion
     [(''0|1|48000|1|1'', \<lparr>codec = ''opus'', bitrate = ''24000'', channels = ''1''\<rparr>),
      (''0|0|0|0|0'', \<lparr>codec = ''opus'', bitrate = ''64000'', channels = ''2''\<rparr>)]
     ''mp3'' 32000 1 =
     Some \<lparr>codec = ''opus'', bitrate = ''24000'', channels = ''1''\<rparr>"
    by (simp add: findConversion_def condition_matches_def from_ok_def to_ok_def at_def n c
        resolve_copy_def)
  have g: "findConversion
     [(''0|1|48000|1|1'', \<lparr>codec = ''opus'', bitrate = ''24000'', channels = ''1''\<rparr>),
      (''0|0|0|0|0'', \<lparr>codec = ''opus'', bitrate = ''64000'', channels = ''2''\<rparr>)]
     ''mp3'' 500000 2 =
     Some \<lparr>codec = ''opus'', bitrate = ''64000'', channels = ''2''\<rparr>"
    by (simp add: findConversion_def condition_matches_def from_ok_def to_ok_def at_def n c
        resolve_copy_def)
  show ?thesis using p f g by (intro conjI)
qed

text \<open>
  C1. For every list of rules and every input, \<open>findConversion\<close> on the matrix of the rules
  returns the action of the first rule in declaration order whose condition holds (with the
  copy action resolved to the input), and nothing when no condition holds. A condition holds
  when its codec equals the input codec up to letter case or is the wildcard \<open>0\<close>, and bit
  rate and channel count lie within their inclusive bounds, where a bound \<open>0\<close> is no bound.
  A rule with bounds \<open>[L, H]\<close> matches at \<open>L\<close> and at \<open>H\<close>. The key of a condition is its
  codec and its four bounds in decimal, joined by the field separator, which the codec does
  not contain.
\<close>

theorem findConversion_first_match:
  assumes "\<forall>(c, a) \<in> set rules. CHR ''|'' \<notin> set (cond_codec c)"
  shows "findConversion (rule_table rules) inputCodec inputBitrate inputChannels =
           map_option (\<lambda>(c, a). resolve_copy a inputCodec inputBitrate inputChannels)
             (first_match rules inputCodec inputBitrate inputChannels) \<and>
         (L \<le> H \<longrightarrow>
            condition_matches
              (condition_key \<lparr>cond_codec = ''0'', bitrateLow = L, bitrateHigh = H,
                              channelsLow = 0, channelsHigh = 0\<rparr>)
              inputCodec L inputChannels \<and>
            condition_matches
              (condition_key \<lparr>cond_codec = ''0'', bitrateLow = L, bitrateHigh = H,
                              channelsLow = 0, channelsHigh = 0\<rparr>)
              inputCodec H inputChannels)"
proof -
  let ?loop = "find_loop (rule_table rules) inputCodec inputBitrate inputChannels"
  have loop: "?loop = map_option (\<lambda>(c, a). resolve_copy a inputCodec inputBitrate inputChannels)
                        (first_match rules inputCodec inputBitrate inputChannels)"
    by (rule find_loop_rule_table [OF assms])
  have "findConversion (rule_table rules) inputCodec inputBitrate inputChannels = ?loop"
  proof (cases ?loop)
    case None
    then show ?thesis
      using fallback_never_after_loop [OF None] by (simp add: findConversion_def)
  next
    case (Some r)
    then show ?thesis by (simp add: findConversion_def)
  qed
  then have first: "findConversion (rule_table rules) inputCodec inputBitrate inputChannels =
               map_option (\<lambda>(c, a). resolve_copy a inputCodec inputBitrate inputChannels)
                 (first_match rules inputCodec inputBitrate inputChannels)"
    using loop by (rule trans)
  have ends: "condition_matches
                (condition_key \<lparr>cond_codec = ''0'', bitrateLow = L, bitrateHigh = H,
                                channelsLow = 0, channelsHigh = 0\<rparr>)
                inputCodec x inputChannels \<longleftrightarrow> in_bounds L H x" for x
    by (subst condition_matches_key) (simp_all add: condition_holds_def in_bounds_def)
  have "L \<le> H \<longrightarrow> in_bounds L H L \<and> in_bounds L H H"
    by (simp add: in_bounds_def)
  then show ?thesis using first ends by blast
qed

theorem findConversion_first_match_witness:
  "list_all (\<lambda>(c, a). CHR ''|'' \<notin> set (cond_codec c)) ex_rules \<and>
   rule_table ex_rules =
     [(''0|1|48000|1|1'', \<lparr>codec = ''opus'', bitrate = ''24000'', channels = ''1''\<rparr>),
      (''0|0|0|0|0'', \<lparr>codec = ''opus'', bitrate = ''64000'', channels = ''2''\<rparr>)] \<and>
   findConversion (rule_table ex_rules) ''mp3'' 48000 1 =
     Some \<lparr>codec = ''opus'', bitrate = ''24000'', channels = ''1''\<rparr> \<and>
   (1::int) \<le> 48000 \<and>
   condition_key \<lparr>cond_codec = ''0'', bitrateLow = 1, bitrateHigh = 48000,
                  channelsLow = 0, channelsHigh = 0\<rparr> = ''0|1|48000|0|0'' \<and>
   condition_matches ''0|1|48000|0|0'' ''mp3'' 1 1 \<and>
   condition_matches ''0|1|48000|0|0'' ''mp3'' 48000 1"
proof -
  have h: "\<forall>(c, a) \<in> set ex_rules. CHR ''|'' \<notin> set (cond_codec c)"
    by (simp add: ex_rules_def)
  have t: "rule_table ex_rules =
     [(''0|1|48000|1|1'', \<lparr>codec = ''opus'', bitrate = ''24000'', channels = ''1''\<rparr>),
      (''0|0|0|0|0'', \<lparr>codec = ''opus'', bitrate = ''64000'', channels = ''2''\<rparr>)]"
    by (simp add: rule_table_def ex_rules_def condition_key_def toString_def
        string_of_nat.simps digit_chars_def)
  have m: "map_option (\<lambda>(c, a). resolve_copy a ''mp3'' 48000 1)
             (first_match ex_rules ''mp3'' 48000 1) =
           Some \<lparr>codec = ''opus'', bitrate = ''24000'', channels = ''1''\<rparr>"
    by (simp add: first_match_def ex_rules_def condition_holds_def in_bounds_def
        resolve_copy_def toLowerCase_def lower_char_def upper_chars_def lower_chars_def)
  have l: "(1::int) \<le> 48000" by simp
  have k: "condition_key \<lparr>cond_codec = ''0'', bitrateLow = 1, bitrateHigh = 48000,
                          channelsLow = 0, channelsHigh = 0\<rparr> = ''0|1|48000|0|0''"
    by (simp add: condition_key_def toString_def string_of_nat.simps digit_chars_def)
  note inst = findConversion_first_match [OF h, where inputCodec = "''mp3''"
                and inputBitrate = 48000 and inputChannels = 1 and L = 1 and H = 48000]
  have r: "findConversion (rule_table ex_rules) ''mp3'' 48000 1 =
             Some \<lparr>codec = ''opus'', bitrate = ''24000'', channels = ''1''\<rparr>"
    using conjunct1 [OF inst] m by (rule trans)
  have b: "condition_matches ''0|1|48000|0|0'' ''mp3'' 1 1 \<and>
           condition_matches ''0|1|48000|0|0'' ''mp3'' 48000 1"
    using conjunct2 [OF inst] l unfolding k by (rule mp)
  have h': "list_all (\<lambda>(c, a). CHR ''|'' \<notin> set (cond_codec c)) ex_rules"
    using h by (simp add: list_all_iff)
  show ?thesis using h' t r l k conjunct1 [OF b] conjunct2 [OF b] by (intro conjI)
qed

text \<open>
  C2. A bare fallback item is to be consulted only after every explicit rule has failed,
  wherever it stands in the text. Here the text has the bare fallback first and an explicit
  rule for \<open>mp3\<close> after it: the fallback is stored first under the all-wildcard key, the loop
  of \<open>findConversion\<close> meets it first, and the input \<open>(mp3, 128000, 2)\<close>, which the explicit
  rule matches, receives the fallback action.
\<close>

theorem fallback_shadows_later_rule:
  "parseConversionMatrix ''opus|64000|2,mp3|0|0|0|0=flac|128000|2'' =
     Inr [(''0|0|0|0|0'', \<lparr>codec = ''opus'', bitrate = ''64000'', channels = ''2''\<rparr>),
          (''mp3|0|0|0|0'', \<lparr>codec = ''flac'', bitrate = ''128000'', channels = ''2''\<rparr>)] \<and>
   condition_matches ''mp3|0|0|0|0'' ''mp3'' 128000 2 \<and>
   findConversion
     [(''0|0|0|0|0'', \<lparr>codec = ''opus'', bitrate = ''64000'', channels = ''2''\<rparr>),
      (''mp3|0|0|0|0'', \<lparr>codec = ''flac'', bitrate = ''128000'', channels = ''2''\<rparr>)]
     ''mp3'' 128000 2 =
     Some \<lparr>codec = ''opus'', bitrate = ''64000'', channels = ''2''\<rparr>"
  by code_simp

text \<open>
  C3. The parser is to skip every malformed item and never fail. The item \<open>x=opus\<close> has a
  condition and a result, so the first branch is taken; the result has one field, the second
  is undefined, and trimming it raises a \<open>TypeError\<close> that leaves the parser. The branch of
  the bare fallback checks its three fields before it trims them.
\<close>

theorem parse_short_action_raises:
  "parseConversionMatrix ''x=opus'' = Inl TypeError"
  by code_simp

text \<open>
  C6. When the profile that decides the result (the one of the first matching entry, or the
  fallback entry) has the copy codec, in any letter case, \<open>findConversion\<close> returns the
  input's codec as given and the decimal strings of the input's bit rate and channel count.
\<close>

theorem copy_resolves_to_input:
  assumes "selected_profile matrix inputCodec inputBitrate inputChannels = Some profile"
    and "toLowerCase (codec profile) = ''copy''"
  shows "findConversion matrix inputCodec inputBitrate inputChannels =
           Some \<lparr>codec = inputCodec, bitrate = toString inputBitrate,
                  channels = toString inputChannels\<rparr>"
  using assms
  by (auto simp: selected_profile_def findConversion_def find_loop_find resolve_copy_def
      split: option.splits)

theorem copy_resolves_to_input_witness:
  "selected_profile ex_copy_matrix ''MP3'' 128000 2 =
     Some \<lparr>codec = ''copy'', bitrate = ''0'', channels = ''0''\<rparr> \<and>
   toLowerCase (codec \<lparr>codec = ''copy'', bitrate = ''0'', channels = ''0''\<rparr>) = ''copy'' \<and>
   findConversion ex_copy_matrix ''MP3'' 128000 2 =
     Some \<lparr>codec = ''MP3'', bitrate = ''128000'', channels = ''2''\<rparr>"
proof -
  have a: "selected_profile ex_copy_matrix ''MP3'' 128000 2 =
             Some \<lparr>codec = ''copy'', bitrate = ''0'', channels = ''0''\<rparr>"
    by code_simp
  have b: "toLowerCase (codec \<lparr>codec = ''copy'', bitrate = ''0'', channels = ''0''\<rparr>) = ''copy''"
    by code_simp
  have c: "Some \<lparr>codec = ''MP3'', bitrate = toString 128000, channels = toString 2\<rparr> =
           Some \<lparr>codec = ''MP3'', bitrate = ''128000'', channels = ''2''\<rparr>"
    by (simp add: toString_def string_of_nat.simps digit_chars_def)
  have r: "findConversion ex_copy_matrix ''MP3'' 128000 2 =
             Some \<lparr>codec = ''MP3'', bitrate = ''128000'', channels = ''2''\<rparr>"
    using copy_resolves_to_input [OF a b] c by (rule trans)
  show ?thesis using a b r by (intro conjI)
qed

text \<open>
  C10. The exclusion check at dispatch is insensitive to letter case on both sides: a codec
  is excluded exactly when its lower-case form is among the configured codecs, each taken in
  lower case, so two codecs with the same lower-case form, checked against two settings with
  the same lower-case form, get the same decision.
\<close>

theorem exclusion_case_insensitive:
  "(codec_excluded (cfg\<lparr>EXCLUDED_CODECS := EXCLUDED_CODECS_of env\<rparr>) c \<longleftrightarrow>
      toLowerCase c \<in> set (map toLowerCase (split_on CHR '','' (env_or env ''opus'')))) \<and>
   (toLowerCase c = toLowerCase c' \<and> map_option toLowerCase env = map_option toLowerCase env' \<longrightarrow>
      codec_excluded (cfg\<lparr>EXCLUDED_CODECS := EXCLUDED_CODECS_of env\<rparr>) c =
      codec_excluded (cfg\<lparr>EXCLUDED_CODECS := EXCLUDED_CODECS_of env'\<rparr>) c')"
proof -
  have "toLowerCase (env_or env ''opus'') = toLowerCase (env_or env' ''opus'')"
    if "map_option toLowerCase env = map_option toLowerCase env'"
    using that by (simp add: toLowerCase_env_or)
  then show ?thesis
    by (auto simp: codec_excluded_def EXCLUDED_CODECS_of_def split_on_toLowerCase
        simp del: set_map)
qed

theorem exclusion_case_insensitive_witness:
  "toLowerCase ''OPUS'' = toLowerCase ''opus'' \<and>
   map_option toLowerCase (Some ''AAC,Opus'') = map_option toLowerCase (Some ''aac,opus'') \<and>
   codec_excluded (ex_config\<lparr>EXCLUDED_CODECS := EXCLUDED_CODECS_of (Some ''AAC,Opus'')\<rparr>) ''OPUS'' =
   codec_excluded (ex_config\<lparr>EXCLUDED_CODECS := EXCLUDED_CODECS_of (Some ''aac,opus'')\<rparr>) ''opus'' \<and>
   codec_excluded (ex_config\<lparr>EXCLUDED_CODECS := EXCLUDED_CODECS_of (Some ''aac,opus'')\<rparr>) ''opus''"
proof -
  have a: "toLowerCase ''OPUS'' = toLowerCase ''opus''" by code_simp
  have b: "map_option toLowerCase (Some ''AAC,Opus'') = map_option toLowerCase (Some ''aac,opus'')"
    by code_simp
  have c: "codec_excluded (ex_config\<lparr>EXCLUDED_CODECS := EXCLUDED_CODECS_of (Some ''aac,opus'')\<rparr>)
             ''opus''"
    by code_simp
  have d: "codec_excluded
             (ex_config\<lparr>EXCLUDED_CODECS := EXCLUDED_CODECS_of (Some ''AAC,Opus'')\<rparr>) ''OPUS'' =
           codec_excluded
             (ex_config\<lparr>EXCLUDED_CODECS := EXCLUDED_CODECS_of (Some ''aac,opus'')\<rparr>) ''opus''"
    using exclusion_case_insensitive
            [where cfg = ex_config and env = "Some ''AAC,Opus''" and c = "''OPUS''"
               and c' = "''opus''" and env' = "Some ''aac,opus''"] a b
    by (elim conjE impE) (rule conjI)
  show ?thesis using a b c d by (intro conjI)
qed

section \<open>The counter and the queue under dispatch\<close>

lemma shutdown_fields [simp]:
  "runningEncodings (shutdown s) = runningEncodings s"
  "encodingQueue (shutdown s) = encodingQueue s"
  "suspended (shutdown s) = suspended s"
  "queueTimers (shutdown s) = queueTimers s"
  "conversionMatrix (shutdown s) = conversionMatrix s"
  by (simp_all add: shutdown_def Let_def emit_def sendRawSocketMessage_def)

lemma shutdown_engine_calls:
  "filter engine_call (trace (shutdown s)) = filter engine_call (trace s)"
  by (simp add: shutdown_def Let_def emit_def sendRawSocketMessage_def)

lemma resume_fields [simp]:
  "runningEncodings (resume cid s) = runningEncodings s"
  "encodingQueue (resume cid s) = encodingQueue s"
  by (simp_all add: resume_def)

lemma processEncodingQueue_le:
  "runningEncodings s \<le> MAX_PARALLEL cfg \<Longrightarrow>
   runningEncodings (processEncodingQueue cfg s) \<le> MAX_PARALLEL cfg"
  by (simp add: processEncodingQueue_def emit_def split: list.splits)

lemma processEncodingQueue_ge:
  "runningEncodings s \<le> runningEncodings (processEncodingQueue cfg s)"
  by (simp add: processEncodingQueue_def emit_def split: list.splits)

lemma processEncodingQueue_gate:
  "MAX_PARALLEL cfg \<le> runningEncodings s \<Longrightarrow>
   encodingQueue (processEncodingQueue cfg s) = encodingQueue s \<and>
   runningEncodings (processEncodingQueue cfg s) = runningEncodings s"
  by (simp add: processEncodingQueue_def)

lemma processEncodingQueue_queue:
  "encodingQueue (processEncodingQueue cfg s) = encodingQueue s \<or>
   encodingQueue (processEncodingQueue cfg s) = tl (encodingQueue s)"
  by (simp add: processEncodingQueue_def emit_def split: list.splits)

lemma processEncodingQueue_empty:
  "encodingQueue s = [] \<Longrightarrow>
   runningEncodings (processEncodingQueue cfg s) = runningEncodings s \<and>
   encodingQueue (processEncodingQueue cfg s) = []"
  by (simp add: processEncodingQueue_def)

lemma decrement_and_retry_le:
  "runningEncodings s \<le> MAX_PARALLEL cfg \<Longrightarrow>
   runningEncodings (decrement_and_retry cfg s) \<le> MAX_PARALLEL cfg"
  unfolding decrement_and_retry_def by (rule processEncodingQueue_le) simp

lemma backfill_le:
  "runningEncodings s \<le> MAX_PARALLEL cfg \<Longrightarrow>
   runningEncodings (backfill cfg i s) \<le> MAX_PARALLEL cfg"
proof (induction cfg i s rule: backfill.induct)
  case (1 cfg i s)
  show ?case
  proof (cases "i < MAX_PARALLEL cfg")
    case True
    then show ?thesis
      using "1.IH" [OF True processEncodingQueue_le [OF "1.prems"]]
      by (subst backfill.simps) simp
  next
    case False
    then show ?thesis using "1.prems" by (subst backfill.simps) simp
  qed
qed

lemma backfill_ge: "runningEncodings s \<le> runningEncodings (backfill cfg i s)"
proof (induction cfg i s rule: backfill.induct)
  case (1 cfg i s)
  show ?case
  proof (cases "i < MAX_PARALLEL cfg")
    case True
    have "runningEncodings s \<le> runningEncodings (processEncodingQueue cfg s)"
      by (rule processEncodingQueue_ge)
    also have "\<dots> \<le> runningEncodings (backfill cfg (i + 1) (processEncodingQueue cfg s))"
      by (rule "1.IH" [OF True])
    finally show ?thesis using True by (subst backfill.simps) simp
  next
    case False
    then show ?thesis by (subst backfill.simps) simp
  qed
qed

lemma backfill_empty:
  "encodingQueue s = [] \<Longrightarrow> runningEncodings (backfill cfg i s) = runningEncodings s"
proof (induction cfg i s rule: backfill.induct)
  case (1 cfg i s)
  show ?case
  proof (cases "i < MAX_PARALLEL cfg")
    case True
    then show ?thesis
      using "1.IH" [OF True] processEncodingQueue_empty [OF "1.prems", of cfg]
      by (subst backfill.simps) simp
  next
    case False
    then show ?thesis by (subst backfill.simps) simp
  qed
qed

lemma task_finished_le:
  "runningEncodings s \<le> MAX_PARALLEL cfg \<Longrightarrow>
   runningEncodings (task_finished cfg a l s) \<le> MAX_PARALLEL cfg"
  by (auto simp: task_finished_def Let_def emit_def intro!: backfill_le split: option.splits)

lemma try_after_details_le:
  "runningEncodings s \<le> MAX_PARALLEL cfg \<Longrightarrow>
   try_after_details cfg cid itemId reply s = Inr s' \<Longrightarrow>
   runningEncodings s' \<le> MAX_PARALLEL cfg"
  by (auto simp: try_after_details_def Let_def emit_def
      intro!: decrement_and_retry_le
      split: details_reply.splits option.splits list.splits if_splits)

lemma step_le:
  assumes "runningEncodings s \<le> MAX_PARALLEL cfg" and "resync_within (MAX_PARALLEL cfg) ev"
  shows "runningEncodings (step cfg ev s) \<le> MAX_PARALLEL cfg"
proof (cases "exited s")
  case True
  then show ?thesis using assms by (simp add: step_def)
next
  case False
  show ?thesis
  proof (cases ev)
    case (ItemAdded p)
    then show ?thesis using assms False
      by (simp add: step_def item_added_def split: option.splits)
  next
    case (TaskFinished a l)
    then show ?thesis using assms False by (simp add: step_def task_finished_le)
  next
    case QueueTimer
    then show ?thesis using assms False by (simp add: step_def processEncodingQueue_le)
  next
    case (ItemDetailsReply cid reply)
    then show ?thesis using assms False
      by (auto simp: step_def catch_block_def
          intro: decrement_and_retry_le dest: try_after_details_le [rotated]
          split: option.splits await.splits sum.splits)
  next
    case (StartEncodingReply cid ok)
    then show ?thesis using assms False
      by (auto simp: step_def catch_block_def try_after_start_def emit_def
          intro: decrement_and_retry_le
          split: option.splits await.splits sum.splits if_splits)
  next
    case (TasksReply cid reply)
    then show ?thesis using assms False
      by (auto simp: step_def after_tasks_def split: option.splits await.splits)
  next
    case Signal
    then show ?thesis using assms False
      by (simp add: step_def on_signal_def Let_def)
  next
    case ExitTimer
    then show ?thesis using assms False by (simp add: step_def emit_def)
  qed
qed

lemma run_le:
  "runningEncodings s \<le> MAX_PARALLEL cfg \<Longrightarrow>
   \<forall>ev \<in> set evs. resync_within (MAX_PARALLEL cfg) ev \<Longrightarrow>
   runningEncodings (run cfg evs s) \<le> MAX_PARALLEL cfg"
  unfolding run_def
  by (induction evs arbitrary: s) (simp_all add: step_le)

text \<open>
  C4, as stated: from a counter of 0, dispatch attempts with no completion signal never let
  the counter exceed the limit. With a limit of 2, three items are added and their three
  timers fire; the first call's job count (1, the one encoding requested so far) overwrites
  the counter while the second call is under way, so the third timer passes the gate. No
  completion signal arrives, every job count is the number of encodings requested so far, and
  the counter ends at 3.
\<close>

theorem burst_exceeds_limit:
  "runningEncodings (new_client ex_matrix) = 0 \<and> MAX_PARALLEL ex_config = 2 \<and>
   filter completion_signal ex_burst = [] \<and>
   runningEncodings (run ex_config ex_burst (new_client ex_matrix)) = 3 \<and>
   MAX_PARALLEL ex_config < runningEncodings (run ex_config ex_burst (new_client ex_matrix))"
  by code_simp

text \<open>
  C4, amended. From a counter within the limit, any sequence of events with no completion
  signal in which every job count reported by the control plane is within the limit keeps
  the counter within the limit; and an attempt that finds the counter at or above the limit
  leaves the queue and the counter unchanged.
\<close>

theorem counter_bounded_by_limit:
  assumes "runningEncodings s \<le> MAX_PARALLEL cfg"
    and "\<forall>ev \<in> set evs. \<not> completion_signal ev \<and> resync_within (MAX_PARALLEL cfg) ev"
  shows "runningEncodings (run cfg evs s) \<le> MAX_PARALLEL cfg \<and>
         (MAX_PARALLEL cfg \<le> runningEncodings t \<longrightarrow>
            encodingQueue (processEncodingQueue cfg t) = encodingQueue t \<and>
            runningEncodings (processEncodingQueue cfg t) = runningEncodings t)"
proof -
  have "\<forall>ev \<in> set evs. resync_within (MAX_PARALLEL cfg) ev"
    using assms(2) by blast
  then have "runningEncodings (run cfg evs s) \<le> MAX_PARALLEL cfg"
    by (rule run_le [OF assms(1)])
  then show ?thesis using processEncodingQueue_gate by blast
qed

theorem counter_bounded_by_limit_witness:
  "runningEncodings (new_client ex_matrix) \<le> MAX_PARALLEL ex_config \<and>
   list_all (\<lambda>ev. \<not> completion_signal ev \<and> resync_within (MAX_PARALLEL ex_config) ev)
     ex_two_started \<and>
   runningEncodings (run ex_config ex_two_started (new_client ex_matrix)) \<le>
     MAX_PARALLEL ex_config \<and>
   MAX_PARALLEL ex_config \<le> runningEncodings (run ex_config ex_two_started (new_client ex_matrix)) \<and>
   encodingQueue
     (processEncodingQueue ex_config (run ex_config ex_two_started (new_client ex_matrix))) =
   encodingQueue (run ex_config ex_two_started (new_client ex_matrix)) \<and>
   runningEncodings
     (processEncodingQueue ex_config (run ex_config ex_two_started (new_client ex_matrix))) =
   runningEncodings (run ex_config ex_two_started (new_client ex_matrix))"
proof -
  let ?t = "run ex_config ex_two_started (new_client ex_matrix)"
  have a: "runningEncodings (new_client ex_matrix) \<le> MAX_PARALLEL ex_config"
    by code_simp
  have b: "list_all (\<lambda>ev. \<not> completion_signal ev \<and> resync_within (MAX_PARALLEL ex_config) ev)
             ex_two_started"
    by code_simp
  have b': "\<forall>ev \<in> set ex_two_started.
              \<not> completion_signal ev \<and> resync_within (MAX_PARALLEL ex_config) ev"
    using b by (simp add: list_all_iff)
  have c: "MAX_PARALLEL ex_config \<le> runningEncodings ?t"
    by code_simp
  note inst = counter_bounded_by_limit [OF a b', where t = ?t]
  have d: "encodingQueue (processEncodingQueue ex_config ?t) = encodingQueue ?t \<and>
           runningEncodings (processEncodingQueue ex_config ?t) = runningEncodings ?t"
    using conjunct2 [OF inst] c by (rule mp)
  show ?thesis
    using a b conjunct1 [OF inst] c conjunct1 [OF d] conjunct2 [OF d] by (intro conjI)
qed

text \<open>
  C5, as stated: handling \<open>task_finished\<close> with an encode action never drives the counter
  below zero. In the new client the counter is 0 and the queue is empty; the event leaves the
  counter at \<open>-1\<close>.
\<close>

theorem task_finished_goes_negative:
  "runningEncodings (new_client ex_matrix) = 0 \<and>
   runningEncodings
     (step ex_config (TaskFinished (Some ''encode-m4b'') None) (new_client ex_matrix)) = - 1 \<and>
   runningEncodings
     (step ex_config (TaskFinished (Some ''encode-m4b'') None) (new_client ex_matrix)) < 0"
  by code_simp

text \<open>
  C5, amended. Handling \<open>task_finished\<close> with an action that contains \<open>encode\<close> takes one
  off the counter, whatever its value, and the dispatch attempts that follow only add to it:
  afterwards the counter is at least its old value less one, it is exactly that when the
  queue is empty, and it is not negative when the old value was at least one.
\<close>

theorem task_finished_decrement:
  assumes "str_includes a ''encode''" and "\<not> exited s"
  shows "runningEncodings s - 1 \<le> runningEncodings (step cfg (TaskFinished (Some a) l) s) \<and>
         (encodingQueue s = [] \<longrightarrow>
            runningEncodings (step cfg (TaskFinished (Some a) l) s) = runningEncodings s - 1) \<and>
         (1 \<le> runningEncodings s \<longrightarrow>
            0 \<le> runningEncodings (step cfg (TaskFinished (Some a) l) s))"
proof -
  let ?s1 = "s\<lparr>runningEncodings := runningEncodings s - 1\<rparr>"
  let ?s2 = "if EMBED_METADATA cfg \<and> truthy l
             then (case l of Some i \<Rightarrow> emit (EmbedTimer i) ?s1 | None \<Rightarrow> ?s1) else ?s1"
  have st: "step cfg (TaskFinished (Some a) l) s = backfill cfg (runningEncodings ?s2) ?s2"
    using assms by (simp add: step_def task_finished_def Let_def)
  have r2: "runningEncodings ?s2 = runningEncodings s - 1"
    by (simp add: emit_def split: option.splits)
  have q2: "encodingQueue ?s2 = encodingQueue s"
    by (simp add: emit_def split: option.splits)
  have ge: "runningEncodings s - 1 \<le> runningEncodings (step cfg (TaskFinished (Some a) l) s)"
    unfolding st using backfill_ge [of ?s2 cfg "runningEncodings ?s2"] r2 by simp
  have eq: "encodingQueue s = [] \<Longrightarrow>
            runningEncodings (step cfg (TaskFinished (Some a) l) s) = runningEncodings s - 1"
    unfolding st using backfill_empty [of ?s2 cfg "runningEncodings ?s2"] r2 q2 by simp
  from ge eq show ?thesis by auto
qed

theorem task_finished_decrement_witness:
  "str_includes ''encode-m4b'' ''encode'' \<and> \<not> exited ex_await_tasks \<and>
   1 \<le> runningEncodings ex_await_tasks \<and>
   runningEncodings ex_await_tasks - 1 \<le>
     runningEncodings (step ex_config (TaskFinished (Some ''encode-m4b'') None) ex_await_tasks) \<and>
   0 \<le> runningEncodings (step ex_config (TaskFinished (Some ''encode-m4b'') None) ex_await_tasks) \<and>
   encodingQueue (new_client ex_matrix) = [] \<and>
   runningEncodings
     (step ex_config (TaskFinished (Some ''encode-m4b'') None) (new_client ex_matrix)) =
   runningEncodings (new_client ex_matrix) - 1"
proof -
  have a: "str_includes ''encode-m4b'' ''encode''" by code_simp
  have b: "\<not> exited ex_await_tasks" by code_simp
  have c: "1 \<le> runningEncodings ex_await_tasks" by code_simp
  have d: "\<not> exited (new_client ex_matrix)" by code_simp
  have e: "encodingQueue (new_client ex_matrix) = []" by code_simp
  note i1 = task_finished_decrement [OF a b, where cfg = ex_config and l = None]
  note i2 = task_finished_decrement [OF a d, where cfg = ex_config and l = None]
  have f: "0 \<le> runningEncodings
                 (step ex_config (TaskFinished (Some ''encode-m4b'') None) ex_await_tasks)"
    using conjunct2 [OF conjunct2 [OF i1]] c by (rule mp)
  have g: "runningEncodings
             (step ex_config (TaskFinished (Some ''encode-m4b'') None) (new_client ex_matrix)) =
           runningEncodings (new_client ex_matrix) - 1"
    using conjunct1 [OF conjunct2 [OF i2]] e by (rule mp)
  show ?thesis using a b c conjunct1 [OF i1] f e g by (intro conjI)
qed

section \<open>Skipped and failed attempts\<close>

lemma well_formed_new: "well_formed (new_client m)"
  by (simp add: well_formed_def new_client_def)

lemma well_formed_shutdown: "well_formed s \<Longrightarrow> well_formed (shutdown s)"
  by (simp add: well_formed_def shutdown_def Let_def emit_def sendRawSocketMessage_def)

lemma well_formed_emit: "well_formed s \<Longrightarrow> well_formed (emit e s)"
  by (simp add: well_formed_def emit_def)

lemma well_formed_processEncodingQueue:
  assumes "well_formed s"
  shows "well_formed (processEncodingQueue cfg s)"
proof (cases "encodingQueue s")
  case Nil
  then show ?thesis using assms well_formed_shutdown [OF assms]
    by (simp add: processEncodingQueue_def)
next
  case (Cons itemId rest)
  have "well_formed (s\<lparr>encodingQueue := rest\<rparr>)"
    using assms Cons by (simp add: well_formed_def)
  moreover have "well_formed
      (s\<lparr>encodingQueue := rest, runningEncodings := runningEncodings s + 1,
         suspended := suspended s @ [(nextCall s, itemId, AwaitItemDetails)],
         nextCall := nextCall s + 1\<rparr>)"
    using assms Cons by (fastforce simp: well_formed_def less_Suc_eq)
  ultimately show ?thesis using assms Cons
    by (simp add: processEncodingQueue_def well_formed_emit)
qed

lemma well_formed_decrement_and_retry:
  "well_formed s \<Longrightarrow> well_formed (decrement_and_retry cfg s)"
  unfolding decrement_and_retry_def
  by (rule well_formed_processEncodingQueue) (simp add: well_formed_def)

lemma well_formed_backfill: "well_formed s \<Longrightarrow> well_formed (backfill cfg i s)"
proof (induction cfg i s rule: backfill.induct)
  case (1 cfg i s)
  show ?case
  proof (cases "i < MAX_PARALLEL cfg")
    case True
    then show ?thesis
      using "1.IH" [OF True well_formed_processEncodingQueue [OF "1.prems"]]
      by (subst backfill.simps) simp
  next
    case False
    then show ?thesis using "1.prems" by (subst backfill.simps) simp
  qed
qed

lemma well_formed_resume: "well_formed s \<Longrightarrow> well_formed (resume cid s)"
  by (simp add: well_formed_def resume_def)

lemma well_formed_try_after_details:
  "well_formed s \<Longrightarrow> cid < nextCall s \<Longrightarrow>
   try_after_details cfg cid itemId reply s = Inr s' \<Longrightarrow> well_formed s'"
  by (auto simp: try_after_details_def Let_def
      intro!: well_formed_decrement_and_retry
      split: details_reply.splits option.splits list.splits if_splits)
     (auto simp: well_formed_def emit_def)

lemma suspended_call_number:
  "well_formed s \<Longrightarrow> map_of (suspended s) cid = Some v \<Longrightarrow> cid < nextCall s"
proof -
  assume wf: "well_formed s" and m: "map_of (suspended s) cid = Some v"
  have "(cid, v) \<in> set (suspended s)" by (rule map_of_SomeD [OF m])
  then have "fst (cid, v) < nextCall s" using wf unfolding well_formed_def by blast
  then show ?thesis by simp
qed

lemma well_formed_step: "well_formed s \<Longrightarrow> well_formed (step cfg ev s)"
proof (cases "exited s")
  case True
  then show "well_formed s \<Longrightarrow> ?thesis" by (simp add: step_def)
next
  case False
  assume wf: "well_formed s"
  show ?thesis
  proof (cases ev)
    case (ItemAdded p)
    then show ?thesis using wf False
      by (auto simp: step_def item_added_def well_formed_def split: option.splits)
  next
    case (TaskFinished a l)
    let ?s1 = "s\<lparr>runningEncodings := runningEncodings s - 1\<rparr>"
    have w1: "well_formed ?s1"
      using wf by (simp add: well_formed_def)
    have "well_formed (task_finished cfg a l s)"
      using wf w1 well_formed_emit [OF w1]
      by (auto simp: task_finished_def Let_def intro!: well_formed_backfill
          split: option.splits)
    then show ?thesis using TaskFinished False by (simp add: step_def)
  next
    case QueueTimer
    have "well_formed (s\<lparr>queueTimers := queueTimers s - 1\<rparr>)"
      using wf by (simp add: well_formed_def)
    then show ?thesis using QueueTimer False wf
      by (simp add: step_def well_formed_processEncodingQueue)
  next
    case (ItemDetailsReply cid reply)
    show ?thesis
    proof (cases "map_of (suspended s) cid")
      case None
      then show ?thesis using ItemDetailsReply False wf by (simp add: step_def)
    next
      case (Some v)
      obtain itemId a where v: "v = (itemId, a)" by (cases v)
      have lt: "cid < nextCall (resume cid s)"
        using suspended_call_number [OF wf Some] by (simp add: resume_def)
      have wr: "well_formed (resume cid s)" by (rule well_formed_resume [OF wf])
      show ?thesis
        using ItemDetailsReply False wf Some v
          well_formed_try_after_details [OF wr lt]
          well_formed_decrement_and_retry [OF wr]
        by (auto simp: step_def catch_block_def split: await.splits sum.splits)
    qed
  next
    case (StartEncodingReply cid ok)
    show ?thesis
    proof (cases "map_of (suspended s) cid")
      case None
      then show ?thesis using StartEncodingReply False wf by (simp add: step_def)
    next
      case (Some v)
      obtain itemId a where v: "v = (itemId, a)" by (cases v)
      have lt: "cid < nextCall s" by (rule suspended_call_number [OF wf Some])
      have wr: "well_formed (resume cid s)" by (rule well_formed_resume [OF wf])
      have "well_formed (emit GetTasks
              ((resume cid s)\<lparr>suspended := suspended (resume cid s) @ [(cid, itemId, AwaitGetTasks)]\<rparr>))"
        using wr lt by (simp add: well_formed_def emit_def resume_def)
      then show ?thesis
        using StartEncodingReply False wf Some v well_formed_decrement_and_retry [OF wr]
        by (auto simp: step_def catch_block_def try_after_start_def
            split: await.splits sum.splits)
    qed
  next
    case (TasksReply cid reply)
    have wr: "well_formed (resume cid s)" by (rule well_formed_resume [OF wf])
    then have "well_formed (after_tasks reply (resume cid s))"
      by (simp add: after_tasks_def well_formed_def split: option.splits)
    then show ?thesis using TasksReply False wf
      by (auto simp: step_def split: option.splits await.splits)
  next
    case Signal
    then show ?thesis using False wf well_formed_shutdown [OF wf]
      by (simp add: step_def on_signal_def Let_def well_formed_def)
  next
    case ExitTimer
    then show ?thesis using False wf by (simp add: step_def emit_def well_formed_def)
  qed
qed

lemma well_formed_run: "well_formed s \<Longrightarrow> well_formed (run cfg evs s)"
  unfolding run_def by (induction evs arbitrary: s) (simp_all add: well_formed_step)

lemma map_of_fresh:
  "\<forall>c \<in> set xs. fst c < (n::nat) \<Longrightarrow> map_of (xs @ [(n, v)]) n = Some v"
  by (induction xs) auto

lemma filter_fresh:
  "\<forall>c \<in> set xs. fst c < (n::nat) \<Longrightarrow> filter (\<lambda>c. fst c \<noteq> n) (xs @ [(n, v)]) = xs"
  by (induction xs) auto

text \<open>One attempt on an excluded entry: the entry is taken, its details are requested, and
  the reply leads to the next attempt with the counter as it was.\<close>

lemma skip_excluded_step:
  assumes "\<not> exited t" and "encodingQueue t = x # q" and "x \<noteq> []"
    and "runningEncodings t < MAX_PARALLEL cfg"
    and "\<forall>c \<in> set (suspended t). fst c < nextCall t"
    and "first_excluded cfg files"
  shows "step cfg (ItemDetailsReply (nextCall t) (Details (Some files)))
           (processEncodingQueue cfg t) =
         processEncodingQueue cfg
           (t\<lparr>encodingQueue := q, nextCall := Suc (nextCall t),
              trace := trace t @ [GetItemDetails x]\<rparr>)"
proof -
  obtain f others where files: "files = f # others" and ex: "codec_excluded cfg (file_codec f)"
    using assms(6) by (cases files) auto
  let ?t1 = "processEncodingQueue cfg t"
  have t1: "?t1 = emit (GetItemDetails x)
                    (t\<lparr>encodingQueue := q, runningEncodings := runningEncodings t + 1,
                       suspended := suspended t @ [(nextCall t, x, AwaitItemDetails)],
                       nextCall := nextCall t + 1\<rparr>)"
    using assms(1-4) by (simp add: processEncodingQueue_def)
  have look: "map_of (suspended ?t1) (nextCall t) = Some (x, AwaitItemDetails)"
    using map_of_fresh [OF assms(5)] by (simp add: t1 emit_def)
  have res: "resume (nextCall t) ?t1 =
               t\<lparr>encodingQueue := q, runningEncodings := runningEncodings t + 1,
                  nextCall := nextCall t + 1, trace := trace t @ [GetItemDetails x]\<rparr>"
    using filter_fresh [OF assms(5)] by (simp add: t1 emit_def resume_def)
  have nex: "\<not> exited ?t1" using assms(1) by (simp add: t1 emit_def)
  show ?thesis
    using nex look
    by (simp add: step_def catch_block_def try_after_details_def files ex
        decrement_and_retry_def res)
qed

lemma drain_excluded:
  "\<not> exited t \<Longrightarrow> [] \<notin> set (encodingQueue t) \<Longrightarrow>
   runningEncodings t < MAX_PARALLEL cfg \<Longrightarrow>
   \<forall>c \<in> set (suspended t). fst c < nextCall t \<Longrightarrow>
   length fss = length (encodingQueue t) \<Longrightarrow>
   \<forall>files \<in> set fss. first_excluded cfg files \<Longrightarrow>
   run cfg (drain_replies (nextCall t) fss) (processEncodingQueue cfg t) = drained cfg t"
proof (induction fss arbitrary: t)
  case Nil
  then have q: "encodingQueue t = []" by simp
  have e: "t\<lparr>encodingQueue := []\<rparr> = t"
    using q by simp
  have "drained cfg t = (if DRY_RUN cfg then shutdown t else t)"
    using q by (simp add: drained_def e)
  then show ?case using Nil q
    by (simp add: run_def processEncodingQueue_def)
next
  case (Cons files fss)
  then obtain x q where xq: "encodingQueue t = x # q" by (cases "encodingQueue t") auto
  let ?t2 = "t\<lparr>encodingQueue := q, nextCall := Suc (nextCall t),
               trace := trace t @ [GetItemDetails x]\<rparr>"
  have x: "x \<noteq> []" using Cons.prems(2) xq by auto
  have st: "step cfg (ItemDetailsReply (nextCall t) (Details (Some files)))
              (processEncodingQueue cfg t) = processEncodingQueue cfg ?t2"
    using skip_excluded_step [OF Cons.prems(1) xq x Cons.prems(3) Cons.prems(4)] Cons.prems(6)
    by simp
  have ih: "run cfg (drain_replies (nextCall ?t2) fss) (processEncodingQueue cfg ?t2) =
            drained cfg ?t2"
    using Cons.prems xq by (intro Cons.IH) auto
  have "drained cfg ?t2 = drained cfg t"
    using xq by (simp add: drained_def)
  then show ?case using st ih by (simp add: run_def)
qed

lemma drained_fields:
  "encodingQueue (drained cfg s) = []"
  "runningEncodings (drained cfg s) = runningEncodings s"
  "suspended (drained cfg s) = suspended s"
  by (simp_all add: drained_def Let_def)

lemma engine_call_details: "filter engine_call (map GetItemDetails q) = []"
  by (induction q) auto

lemma drained_engine_calls:
  "filter engine_call (trace (drained cfg s)) = filter engine_call (trace s)"
  by (simp add: drained_def Let_def shutdown_engine_calls engine_call_details)

text \<open>
  C7. A queue whose entries all have an excluded codec drains with no completion signal:
  when an attempt can start (the process runs and the counter is below the limit) in a
  state as reached from a new client (no queued identifier is empty and the calls under way
  have numbers below the next one, see \<open>well_formed_run\<close>), one attempt followed by the
  replies with the details of the entries leaves the queue empty. Each entry is skipped with the counter back at its value,
  the next attempt is made at once, and neither the rule engine nor the encoding capability
  is called.
\<close>

theorem excluded_queue_drains:
  assumes "\<not> exited s" and "[] \<notin> set (encodingQueue s)"
    and "runningEncodings s < MAX_PARALLEL cfg"
    and "\<forall>c \<in> set (suspended s). fst c < nextCall s"
    and "length fss = length (encodingQueue s)"
    and "\<forall>files \<in> set fss. first_excluded cfg files"
  shows "run cfg (drain_replies (nextCall s) fss) (processEncodingQueue cfg s) = drained cfg s \<and>
         encodingQueue (drained cfg s) = [] \<and>
         runningEncodings (drained cfg s) = runningEncodings s \<and>
         suspended (drained cfg s) = suspended s \<and>
         filter engine_call (trace (drained cfg s)) = filter engine_call (trace s)"
  using drain_excluded [OF assms] drained_fields [of cfg s] drained_engine_calls [of cfg s]
  by (intro conjI)

theorem excluded_queue_drains_witness:
  "\<not> exited ex_two_queued \<and> encodingQueue ex_two_queued = [''a'', ''b''] \<and>
   runningEncodings ex_two_queued < MAX_PARALLEL ex_config \<and>
   list_all (first_excluded ex_config) [[ex_opus], [ex_opus, ex_mp3]] \<and>
   run ex_config (drain_replies (nextCall ex_two_queued) [[ex_opus], [ex_opus, ex_mp3]])
     (processEncodingQueue ex_config ex_two_queued) = drained ex_config ex_two_queued \<and>
   encodingQueue (drained ex_config ex_two_queued) = [] \<and>
   trace (drained ex_config ex_two_queued) = [GetItemDetails ''a'', GetItemDetails ''b'']"
proof -
  have a: "\<not> exited ex_two_queued" by code_simp
  have q: "encodingQueue ex_two_queued = [''a'', ''b'']" by code_simp
  have b: "[] \<notin> set (encodingQueue ex_two_queued)" unfolding q by simp
  have c: "runningEncodings ex_two_queued < MAX_PARALLEL ex_config" by code_simp
  have u: "suspended ex_two_queued = []" by code_simp
  have d: "\<forall>c \<in> set (suspended ex_two_queued). fst c < nextCall ex_two_queued"
    unfolding u by simp
  have e: "length [[ex_opus], [ex_opus, ex_mp3]] = length (encodingQueue ex_two_queued)"
    unfolding q by simp
  have f: "list_all (first_excluded ex_config) [[ex_opus], [ex_opus, ex_mp3]]" by code_simp
  have f': "\<forall>files \<in> set [[ex_opus], [ex_opus, ex_mp3]]. first_excluded ex_config files"
    using f by (simp add: list_all_iff)
  have g: "trace (drained ex_config ex_two_queued) = [GetItemDetails ''a'', GetItemDetails ''b'']"
    by code_simp
  note inst = excluded_queue_drains [OF a b c d e f']
  show ?thesis
    using a q c f conjunct1 [OF inst] conjunct1 [OF conjunct2 [OF inst]] g by (intro conjI)
qed

text \<open>
  C8. When the call for the item's details or the call that starts the encoding fails, the
  attempt ends in the \<open>catch\<close> block: the counter is taken down by one and the next attempt
  is made at once, on a queue that the failed entry is not put back into (resuming a call
  leaves the queue as it is, and an attempt only ever takes the head off). When only the
  call for the job count fails, the call ends with the counter and the queue as they are.
\<close>

theorem failed_call_decrements_once:
  assumes "\<not> exited s"
  shows "(map_of (suspended s) cid = Some (itemId, AwaitItemDetails) \<longrightarrow>
            step cfg (ItemDetailsReply cid DetailsError) s =
              processEncodingQueue cfg
                ((resume cid s)\<lparr>runningEncodings := runningEncodings s - 1\<rparr>)) \<and>
         (map_of (suspended s) cid = Some (itemId, AwaitStartEncoding) \<longrightarrow>
            step cfg (StartEncodingReply cid False) s =
              processEncodingQueue cfg
                ((resume cid s)\<lparr>runningEncodings := runningEncodings s - 1\<rparr>)) \<and>
         (map_of (suspended s) cid = Some (itemId, AwaitGetTasks) \<longrightarrow>
            step cfg (TasksReply cid None) s = resume cid s) \<and>
         encodingQueue (resume cid s) = encodingQueue s \<and>
         runningEncodings (resume cid s) = runningEncodings s \<and>
         (encodingQueue (processEncodingQueue cfg t) = encodingQueue t \<or>
          encodingQueue (processEncodingQueue cfg t) = tl (encodingQueue t))"
  using assms processEncodingQueue_queue [of cfg t]
  by (simp add: step_def catch_block_def try_after_details_def try_after_start_def
      decrement_and_retry_def after_tasks_def)

theorem failed_call_decrements_once_witness:
  "\<not> exited ex_await_details \<and>
   map_of (suspended ex_await_details) 0 = Some (''a'', AwaitItemDetails) \<and>
   step ex_config (ItemDetailsReply 0 DetailsError) ex_await_details =
     processEncodingQueue ex_config
       ((resume 0 ex_await_details)\<lparr>runningEncodings := runningEncodings ex_await_details - 1\<rparr>) \<and>
   runningEncodings ex_await_details = 1 \<and> encodingQueue ex_await_details = [''b''] \<and>
   runningEncodings (step ex_config (ItemDetailsReply 0 DetailsError) ex_await_details) = 1 \<and>
   encodingQueue (step ex_config (ItemDetailsReply 0 DetailsError) ex_await_details) = [] \<and>
   suspended (step ex_config (ItemDetailsReply 0 DetailsError) ex_await_details) =
     [(1, ''b'', AwaitItemDetails)] \<and>
   \<not> exited ex_await_start \<and>
   map_of (suspended ex_await_start) 0 = Some (''a'', AwaitStartEncoding) \<and>
   step ex_config (StartEncodingReply 0 False) ex_await_start =
     processEncodingQueue ex_config
       ((resume 0 ex_await_start)\<lparr>runningEncodings := runningEncodings ex_await_start - 1\<rparr>) \<and>
   \<not> exited ex_await_tasks \<and>
   map_of (suspended ex_await_tasks) 0 = Some (''a'', AwaitGetTasks) \<and>
   step ex_config (TasksReply 0 None) ex_await_tasks = resume 0 ex_await_tasks \<and>
   runningEncodings ex_await_tasks = 1 \<and>
   runningEncodings (step ex_config (TasksReply 0 None) ex_await_tasks) = 1"
proof -
  have a1: "\<not> exited ex_await_details" by code_simp
  have a2: "map_of (suspended ex_await_details) 0 = Some (''a'', AwaitItemDetails)" by code_simp
  have a3: "runningEncodings ex_await_details = 1" by code_simp
  have a4: "encodingQueue ex_await_details = [''b'']" by code_simp
  have a5: "runningEncodings
              (step ex_config (ItemDetailsReply 0 DetailsError) ex_await_details) = 1"
    by code_simp
  have a6: "encodingQueue (step ex_config (ItemDetailsReply 0 DetailsError) ex_await_details) = []"
    by code_simp
  have a7: "suspended (step ex_config (ItemDetailsReply 0 DetailsError) ex_await_details) =
              [(1, ''b'', AwaitItemDetails)]"
    by code_simp
  have b1: "\<not> exited ex_await_start" by code_simp
  have b2: "map_of (suspended ex_await_start) 0 = Some (''a'', AwaitStartEncoding)" by code_simp
  have c1: "\<not> exited ex_await_tasks" by code_simp
  have c2: "map_of (suspended ex_await_tasks) 0 = Some (''a'', AwaitGetTasks)" by code_simp
  have c3: "runningEncodings ex_await_tasks = 1" by code_simp
  have c4: "runningEncodings (step ex_config (TasksReply 0 None) ex_await_tasks) = 1"
    by code_simp
  note i1 = failed_call_decrements_once
              [OF a1, where cid = 0 and itemId = "''a''" and cfg = ex_config]
  note i2 = failed_call_decrements_once
              [OF b1, where cid = 0 and itemId = "''a''" and cfg = ex_config]
  note i3 = failed_call_decrements_once
              [OF c1, where cid = 0 and itemId = "''a''" and cfg = ex_config]
  have r1: "step ex_config (ItemDetailsReply 0 DetailsError) ex_await_details =
     processEncodingQueue ex_config
       ((resume 0 ex_await_details)\<lparr>runningEncodings := runningEncodings ex_await_details - 1\<rparr>)"
    using conjunct1 [OF i1] a2 by (rule mp)
  have r2: "step ex_config (StartEncodingReply 0 False) ex_await_start =
     processEncodingQueue ex_config
       ((resume 0 ex_await_start)\<lparr>runningEncodings := runningEncodings ex_await_start - 1\<rparr>)"
    using conjunct1 [OF conjunct2 [OF i2]] b2 by (rule mp)
  have r3: "step ex_config (TasksReply 0 None) ex_await_tasks = resume 0 ex_await_tasks"
    using conjunct1 [OF conjunct2 [OF conjunct2 [OF i3]]] c2 by (rule mp)
  show ?thesis
    using a1 a2 r1 a3 a4 a5 a6 a7 b1 b2 r2 c1 c2 r3 c3 c4 by (intro conjI)
qed

section \<open>Shutdown\<close>

text \<open>
  C9, as stated: whenever the queue is not empty at shutdown, the process keeps running so
  that the dispatch attempts already scheduled continue. Two items are queued and their two
  timers are pending when a signal arrives: \<open>shutdown\<close> does not exit, the handler of
  \<open>main\<close> sets its exit timer, and when that timer fires the process exits with both items
  in the queue; the timers set for dispatch never run.
\<close>

theorem signal_exits_with_queued_items:
  "\<not> exited ex_two_queued \<and> encodingQueue ex_two_queued = [''a'', ''b''] \<and>
   queueTimers ex_two_queued = 2 \<and>
   \<not> exited (run ex_config [Signal] ex_two_queued) \<and>
   exited (run ex_config [Signal, ExitTimer] ex_two_queued) \<and>
   encodingQueue (run ex_config [Signal, ExitTimer] ex_two_queued) = [''a'', ''b''] \<and>
   run ex_config [Signal, ExitTimer, QueueTimer] ex_two_queued =
     run ex_config [Signal, ExitTimer] ex_two_queued"
  by code_simp

text \<open>
  C9, amended. \<open>shutdown\<close> cancels a pending reconnect timer, then sends the namespace
  disconnect and closes the connection when it is open, or terminates it when there is one
  that is not open, and then exits exactly when the queue is empty. With entries in the queue
  the process has not exited when \<open>shutdown\<close> returns: the queue, the counter, the suspended
  calls and the timers set for dispatch are as before, and such a timer still starts an
  attempt. After a shutdown from a signal handler the process runs on only until the exit
  timer of the handler fires, which exits whatever the queue holds.
\<close>

theorem shutdown_exits_iff_queue_empty:
  assumes "\<not> exited s"
  shows "reconnectTimeout (shutdown s) = False \<and>
         trace (shutdown s) =
           trace s @ (if reconnectTimeout s then [ClearTimeout] else []) @
           (case ws s of
              None \<Rightarrow> []
            | Some st \<Rightarrow> if st = OPEN then [WsSend ''41'', WsClose] else [WsTerminate]) @
           (if encodingQueue s = [] then [ProcessExit] else []) \<and>
         (exited (shutdown s) \<longleftrightarrow> encodingQueue s = []) \<and>
         encodingQueue (shutdown s) = encodingQueue s \<and>
         runningEncodings (shutdown s) = runningEncodings s \<and>
         suspended (shutdown s) = suspended s \<and>
         queueTimers (shutdown s) = queueTimers s \<and>
         (encodingQueue s \<noteq> [] \<and> 0 < queueTimers s \<longrightarrow>
            step cfg QueueTimer (shutdown s) =
              processEncodingQueue cfg ((shutdown s)\<lparr>queueTimers := queueTimers s - 1\<rparr>)) \<and>
         (encodingQueue s \<noteq> [] \<longrightarrow>
            \<not> exited (step cfg Signal s) \<and> exitTimer (step cfg Signal s) \<and>
            exited (step cfg ExitTimer (step cfg Signal s)) \<and>
            encodingQueue (step cfg ExitTimer (step cfg Signal s)) = encodingQueue s)"
  using assms
  by (auto simp: shutdown_def Let_def emit_def sendRawSocketMessage_def step_def on_signal_def
      split: option.splits)

theorem shutdown_exits_iff_queue_empty_witness:
  "\<not> exited ex_open_client \<and> encodingQueue ex_open_client = [''a'', ''b''] \<and>
   trace (shutdown ex_open_client) = [ClearTimeout, WsSend ''41'', WsClose] \<and>
   exited (shutdown ex_open_client) = (encodingQueue ex_open_client = []) \<and>
   \<not> exited (shutdown ex_open_client) \<and>
   exited (step ex_config ExitTimer (step ex_config Signal ex_open_client)) \<and>
   \<not> exited (new_client ex_matrix) \<and> encodingQueue (new_client ex_matrix) = [] \<and>
   exited (shutdown (new_client ex_matrix)) = (encodingQueue (new_client ex_matrix) = []) \<and>
   exited (shutdown (new_client ex_matrix))"
proof -
  have a: "\<not> exited ex_open_client" by code_simp
  have q: "encodingQueue ex_open_client = [''a'', ''b'']" by code_simp
  have q': "encodingQueue ex_open_client \<noteq> []" unfolding q by simp
  have t: "trace (shutdown ex_open_client) = [ClearTimeout, WsSend ''41'', WsClose]"
    by code_simp
  have b: "\<not> exited (new_client ex_matrix)" by code_simp
  have e: "encodingQueue (new_client ex_matrix) = []" by code_simp
  note i1 = shutdown_exits_iff_queue_empty [OF a, where cfg = ex_config]
  note i2 = shutdown_exits_iff_queue_empty [OF b, where cfg = ex_config]
  have x1: "exited (shutdown ex_open_client) = (encodingQueue ex_open_client = [])"
    using i1 by (elim conjE)
  have x2: "exited (shutdown (new_client ex_matrix)) = (encodingQueue (new_client ex_matrix) = [])"
    using i2 by (elim conjE)
  have n1: "\<not> exited (shutdown ex_open_client)" using x1 q by simp
  have n2: "exited (shutdown (new_client ex_matrix))" using x2 e by simp
  have sg: "encodingQueue ex_open_client \<noteq> [] \<longrightarrow>
            \<not> exited (step ex_config Signal ex_open_client) \<and>
            exitTimer (step ex_config Signal ex_open_client) \<and>
            exited (step ex_config ExitTimer (step ex_config Signal ex_open_client)) \<and>
            encodingQueue (step ex_config ExitTimer (step ex_config Signal ex_open_client)) =
              encodingQueue ex_open_client"
    using i1 by (elim conjE)
  have s1: "exited (step ex_config ExitTimer (step ex_config Signal ex_open_client))"
    using mp [OF sg q'] by (elim conjE)
  show ?thesis using a q t x1 n1 s1 b e x2 n2 by (intro conjI)
qed

end
